theory Spec2Isabelle
  imports Main "HOL-Library.Sublist" "HOL-Library.Product_Lexorder"
begin

chapter \<open>The embedding\<close>

section \<open>JavaScript values of the XML handler\<close>

text \<open>
  The handler of \<^verbatim>\<open>src/parser/xmlHandler.js\<close> builds and reads JavaScript value
  trees. Objects and arrays are mutable and shared by reference (the multiref
  support relies on it), so they live in a store and a value names them by address.
  A character of a \<open>string\<close> stands for one code unit of a JavaScript string.
  \<open>JDate t\<close> is the object \<^verbatim>\<open>new Date(t)\<close>: the constructor is not part of the
  handler, its result is kept as the text it was built from. \<open>JBuiltin k\<close> is the
  member \<open>k\<close> that every plain object inherits from \<^verbatim>\<open>Object.prototype\<close>.
\<close>

type_synonym addr = nat

datatype jsval =
    JUndefined
  | JNull
  | JStr string
  | JBool bool
  | JDate string
  | JRef addr
  | JBuiltin string

text \<open>
  The \<^verbatim>\<open>jsType\<close> of a descriptor: the constructor \<^verbatim>\<open>Date\<close>, the constructor
  \<^verbatim>\<open>Boolean\<close>, any other function (applied to the text), or no function at all.
\<close>

datatype jstype =
    JsDate
  | JsBoolean
  | JsFunction "string \<Rightarrow> jsval"
  | JsAbsent

record qname =
  nsURI :: string
  name :: string
  prefix :: string

text \<open>
  Descriptors (\<^verbatim>\<open>xsd/descriptor.js\<close> declares them; the handler reads their fields).
  \<open>inheritance\<close> is the table \<^verbatim>\<open>refOriginal.typeDescriptor.inheritance\<close> of an
  element, from a subtype name to the elements of its extension; there is none when a
  link of that chain is missing. \<open>dtype\<close> is the declared type, when there is one.
\<close>

datatype descriptor =
    ElementDescriptor
      (d_qname: qname) (d_type: "qname option") (d_form: string)
      (isMany: bool) (isNillable: bool) (isSimple: bool) (jsType: jstype)
      (elements: "descriptor list") (attributes: "descriptor list")
      (inheritance: "(string \<times> descriptor list) list option")
  | AttributeDescriptor
      (d_qname: qname) (d_type: "qname option") (d_form: string) (jsType: jstype)
  | TypeDescriptor
      (elements: "descriptor list") (attributes: "descriptor list")

subsection \<open>Typed value coercion\<close>

text \<open>
  \<^verbatim>\<open>parseValue(text, descriptor)\<close>. A value that is not a string is returned as it
  is. \<^verbatim>\<open>descriptor && descriptor.jsType\<close> is no function when there is no
  descriptor; a type descriptor has no \<^verbatim>\<open>jsType\<close> field.
\<close>

fun jsTypeOf :: "descriptor option \<Rightarrow> jstype" where
  "jsTypeOf None = JsAbsent"
| "jsTypeOf (Some (TypeDescriptor es as)) = JsAbsent"
| "jsTypeOf (Some d) = jsType d"

fun parseValue :: "jsval \<Rightarrow> descriptor option \<Rightarrow> jsval" where
  "parseValue (JStr text) descriptor =
     (case jsTypeOf descriptor of
        JsDate \<Rightarrow> if length text = 10 then JStr text else JDate text
      | JsBoolean \<Rightarrow> if text = ''true'' \<or> text = ''1'' then JBool True else JBool False
      | JsFunction f \<Rightarrow> f text
      | JsAbsent \<Rightarrow> JStr text)"
| "parseValue v descriptor = v"

section \<open>The store of objects\<close>

text \<open>
  An object is the list of its own properties in the order JavaScript enumerates them
  (\<^verbatim>\<open>Object.keys\<close>, \<^verbatim>\<open>for ... in\<close>): array indices in ascending order first, then
  the other names in the order they were added.
\<close>

datatype hobj = HObj "(string \<times> jsval) list" | HArr "jsval list"

type_synonym heap = "hobj list"

text \<open>
  What a call can end in besides a value: a \<^verbatim>\<open>TypeError\<close> or a \<^verbatim>\<open>RangeError\<close> of
  the language (the body
  of a class is strict code, so a property written to a string or a boolean throws),
  the fault error of \<^verbatim>\<open>xmlToJson\<close> with its message, the root object and the store
  the root lives in, the error the tokenizer throws on a document that is not well
  formed, and \<open>Unmodelled\<close> for a step that leaves the part of the language
  embedded here (the \<^verbatim>\<open>__proto__\<close> setter, the conversion of an object to a string or
  of a value to a number, a property added to a date) or reads a document inside a
  document.
\<close>

datatype error =
    TypeError
  | RangeError
  | FaultError string jsval "hobj list"
  | SaxError
  | Unmodelled

definition bindE :: "'e + 'a \<Rightarrow> ('a \<Rightarrow> 'e + 'b) \<Rightarrow> 'e + 'b" where
  "bindE m f = (case m of Inl e \<Rightarrow> Inl e | Inr x \<Rightarrow> f x)"

definition alloc :: "heap \<Rightarrow> hobj \<Rightarrow> heap \<times> addr" where
  "alloc h ob = (h @ [ob], length h)"

text \<open>The members every plain object inherits from \<^verbatim>\<open>Object.prototype\<close>.\<close>

definition objectPrototype :: "string list" where
  "objectPrototype =
     [''constructor'', ''__defineGetter__'', ''__defineSetter__'', ''hasOwnProperty'',
      ''__lookupGetter__'', ''__lookupSetter__'', ''isPrototypeOf'',
      ''propertyIsEnumerable'', ''toString'', ''valueOf'', ''__proto__'',
      ''toLocaleString'']"

definition hasOwn :: "(string \<times> 'v) list \<Rightarrow> string \<Rightarrow> bool" where
  "hasOwn ps k = (map_of ps k \<noteq> None)"

text \<open>\<^verbatim>\<open>k in o\<close> for a plain object: own or inherited.\<close>

definition js_in :: "(string \<times> jsval) list \<Rightarrow> string \<Rightarrow> bool" where
  "js_in ps k = (hasOwn ps k \<or> k \<in> set objectPrototype)"

text \<open>\<^verbatim>\<open>o[k]\<close> for a plain object.\<close>

definition getProp :: "(string \<times> jsval) list \<Rightarrow> string \<Rightarrow> jsval" where
  "getProp ps k =
     (case map_of ps k of
        Some v \<Rightarrow> v
      | None \<Rightarrow> if k \<in> set objectPrototype then JBuiltin k else JUndefined)"

text \<open>
  A property name is an array index when it is the canonical decimal text of a number
  below \<open>2^32 - 1\<close>.
\<close>

definition digitVal :: "char \<Rightarrow> int" where
  "digitVal c = of_char c - 48"

definition decimal :: "string \<Rightarrow> int" where
  "decimal s = foldl (\<lambda>n c. 10 * n + digitVal c) 0 s"

definition arrayIndex :: "string \<Rightarrow> int option" where
  "arrayIndex s =
     (if s \<noteq> [] \<and> list_all (\<lambda>c. c \<in> set ''0123456789'') s
         \<and> (s = ''0'' \<or> take 1 s \<noteq> ''0'') \<and> length s \<le> 10 \<and> decimal s < 4294967295
      then Some (decimal s) else None)"

fun insertIndex :: "int \<Rightarrow> string \<Rightarrow> 'v \<Rightarrow> (string \<times> 'v) list \<Rightarrow> (string \<times> 'v) list" where
  "insertIndex n k v [] = [(k, v)]"
| "insertIndex n k v ((k', v') # ps) =
     (case arrayIndex k' of
        None \<Rightarrow> (k, v) # (k', v') # ps
      | Some m \<Rightarrow> if n < m then (k, v) # (k', v') # ps else (k', v') # insertIndex n k v ps)"

text \<open>
  Writing an own property: an existing one keeps its place, a new array index goes
  to its numeric place, any other new name goes last.
\<close>

definition put :: "(string \<times> 'v) list \<Rightarrow> string \<Rightarrow> 'v \<Rightarrow> (string \<times> 'v) list" where
  "put ps k v =
     (if hasOwn ps k then map (\<lambda>p. if fst p = k then (k, v) else p) ps
      else case arrayIndex k of
             None \<Rightarrow> ps @ [(k, v)]
           | Some n \<Rightarrow> insertIndex n k v ps)"

text \<open>
  \<^verbatim>\<open>target[k] = v\<close> in strict code. On a plain object it writes the own property,
  but for the name \<^verbatim>\<open>__proto__\<close>, whose setter ignores a primitive value and
  replaces the prototype otherwise.
\<close>

definition setProp :: "heap \<Rightarrow> jsval \<Rightarrow> string \<Rightarrow> jsval \<Rightarrow> error + heap" where
  "setProp h target k v =
     (case target of
        JUndefined \<Rightarrow> Inl TypeError
      | JNull \<Rightarrow> Inl TypeError
      | JStr s \<Rightarrow> if k = ''__proto__'' then Inr h else Inl TypeError
      | JBool b \<Rightarrow> if k = ''__proto__'' then Inr h else Inl TypeError
      | JDate t \<Rightarrow> Inl Unmodelled
      | JBuiltin f \<Rightarrow> Inl Unmodelled
      | JRef a \<Rightarrow>
          if a < length h then
            (case h ! a of
               HArr xs \<Rightarrow> Inl Unmodelled
             | HObj ps \<Rightarrow>
                 if k = ''__proto__'' then
                   (case v of
                      JRef b \<Rightarrow> Inl Unmodelled
                    | JNull \<Rightarrow> Inl Unmodelled
                    | JDate t \<Rightarrow> Inl Unmodelled
                    | JBuiltin f \<Rightarrow> Inl Unmodelled
                    | _ \<Rightarrow> Inr h)
                 else Inr (h[a := HObj (put ps k v)]))
          else Inl Unmodelled)"

text \<open>
  \<^verbatim>\<open>v[k]\<close> for the fixed names the handler reads (\<^verbatim>\<open>Envelope\<close>, \<^verbatim>\<open>Body\<close>,
  \<^verbatim>\<open>Fault\<close>, the fields of a fault): no built-in prototype has them, so the
  property of a string, a boolean, a date or an array under such a name is undefined.
\<close>

definition getField :: "heap \<Rightarrow> jsval \<Rightarrow> string \<Rightarrow> jsval" where
  "getField h v k =
     (case v of
        JRef a \<Rightarrow>
          if a < length h then
            (case h ! a of HObj ps \<Rightarrow> getProp ps k | HArr xs \<Rightarrow> JUndefined)
          else JUndefined
      | _ \<Rightarrow> JUndefined)"

definition truthy :: "jsval \<Rightarrow> bool" where
  "truthy v =
     (case v of
        JUndefined \<Rightarrow> False
      | JNull \<Rightarrow> False
      | JStr s \<Rightarrow> s \<noteq> []
      | JBool b \<Rightarrow> b
      | _ \<Rightarrow> True)"

definition nullish :: "jsval \<Rightarrow> bool" where
  "nullish v = (v = JUndefined \<or> v = JNull)"

text \<open>
  \<^verbatim>\<open>a + b\<close> where one operand is a string and the other a string, a boolean,
  \<^verbatim>\<open>null\<close> or \<^verbatim>\<open>undefined\<close>: the concatenation of their texts.
\<close>

fun primText :: "jsval \<Rightarrow> string option" where
  "primText (JStr s) = Some s"
| "primText (JBool b) = Some (if b then ''true'' else ''false'')"
| "primText JNull = Some ''null''"
| "primText JUndefined = Some ''undefined''"
| "primText v = None"

fun isStr :: "jsval \<Rightarrow> bool" where
  "isStr (JStr s) = True"
| "isStr v = False"

definition js_add :: "jsval \<Rightarrow> jsval \<Rightarrow> error + jsval" where
  "js_add a b =
     (case (primText a, primText b) of
        (Some x, Some y) \<Rightarrow> if isStr a \<or> isStr b then Inr (JStr (x @ y)) else Inl Unmodelled
      | _ \<Rightarrow> Inl Unmodelled)"

section \<open>Qualified names and the namespace scopes\<close>

text \<open>
  Modelled from the spec: \<^verbatim>\<open>QName.parse\<close> (\<^verbatim>\<open>qname.js\<close> is not part of the
  sources): the text \<open>prefix:local\<close> gives the prefix and the local name, a text
  with no colon the local name alone.
\<close>

definition QName_parse :: "string \<Rightarrow> qname" where
  "QName_parse s =
     (if CHR '':'' \<in> set s
      then \<lparr>nsURI = [], name = rev (takeWhile (\<lambda>c. c \<noteq> CHR '':'') (rev s)),
            prefix = rev (drop 1 (dropWhile (\<lambda>c. c \<noteq> CHR '':'') (rev s)))\<rparr>
      else \<lparr>nsURI = [], name = s, prefix = []\<rparr>)"

text \<open>
  Modelled from the spec: the namespace scope stack (\<^verbatim>\<open>nscontext.js\<close> is not part
  of the sources): a stack of frames, the innermost first, each a list of bindings
  (prefix, URI, declared flag); a prefix is resolved from the innermost frame
  outwards.
\<close>

type_synonym nsframe = "(string \<times> string \<times> bool) list"

type_synonym nscontext = "nsframe list"

definition pushContext :: "nscontext \<Rightarrow> nscontext" where
  "pushContext ns = [] # ns"

definition popContext :: "nscontext \<Rightarrow> nscontext" where
  "popContext ns = drop 1 ns"

definition addNamespace :: "nscontext \<Rightarrow> string \<Rightarrow> string \<Rightarrow> nscontext" where
  "addNamespace ns p u = (case ns of [] \<Rightarrow> [] | f # fs \<Rightarrow> ((p, u, False) # f) # fs)"

definition getNamespaceURI :: "nscontext \<Rightarrow> string \<Rightarrow> string option" where
  "getNamespaceURI ns p = map_option fst (map_of (concat ns) p)"

text \<open>Modelled from the spec: \<^verbatim>\<open>helper.namespaces.xsi\<close>, the XML-Schema-Instance namespace.\<close>

definition xsi :: string where
  "xsi = ''http://www.w3.org/2001/XMLSchema-instance''"

text \<open>
  Modelled from the spec: \<^verbatim>\<open>findElement\<close> and \<^verbatim>\<open>findAttribute\<close> of a descriptor
  (\<^verbatim>\<open>xsd/descriptor.js\<close> is not part of the sources): the child element, or the
  attribute, with the given local name.
\<close>

fun elementsOf :: "descriptor \<Rightarrow> descriptor list" where
  "elementsOf (AttributeDescriptor q t f j) = []"
| "elementsOf d = elements d"

fun attributesOf :: "descriptor \<Rightarrow> descriptor list" where
  "attributesOf (AttributeDescriptor q t f j) = []"
| "attributesOf d = attributes d"

fun localName :: "descriptor \<Rightarrow> string" where
  "localName (TypeDescriptor es as) = []"
| "localName d = name (d_qname d)"

definition findElement :: "descriptor \<Rightarrow> string \<Rightarrow> descriptor option" where
  "findElement d n = find (\<lambda>e. localName e = n) (elementsOf d)"

definition findAttribute :: "descriptor \<Rightarrow> string \<Rightarrow> descriptor option" where
  "findAttribute d n = find (\<lambda>e. localName e = n) (attributesOf d)"

section \<open>The deserializer\<close>

record options =
  valueKey :: string
  xmlKey :: string
  attributesKey :: string
  xsiTypeKey :: string
  enforceRestrictions :: bool
  ignoreUnknownProperties :: bool

text \<open>The defaults the constructor of \<^verbatim>\<open>XMLHandler\<close> fills in.\<close>

definition defaultOptions :: options where
  "defaultOptions =
     \<lparr>valueKey = ''$value'', xmlKey = ''$xml'', attributesKey = ''$attributes'',
      xsiTypeKey = ''$xsiType'', enforceRestrictions = False,
      ignoreUnknownProperties = False\<rparr>"

text \<open>
  A frame of the stack \<^verbatim>\<open>{name, object, descriptor, id}\<close>; an entry
  \<^verbatim>\<open>{parent, key, object}\<close> of a \<^verbatim>\<open>hrefs\<close> list; an entry \<^verbatim>\<open>{hrefs, object}\<close>
  of the registry \<^verbatim>\<open>refs\<close>. The state of one call of \<^verbatim>\<open>xmlToJson\<close> is the store,
  the stack (its top is the head of the list), the registry (an object keyed by id,
  in enumeration order) and the namespace scopes.
\<close>

record frame =
  f_name :: "string option"
  f_object :: jsval
  f_descriptor :: "descriptor option"
  f_id :: "string option"

record site =
  s_parent :: jsval
  s_key :: string
  s_object :: jsval

record refent =
  hrefs :: "site list"
  r_object :: jsval

record pstate =
  p_heap :: heap
  p_stack :: "frame list"
  p_refs :: "(string \<times> refent) list"
  p_ns :: nscontext

text \<open>
  The events of the tokenizer: \<^verbatim>\<open>onopentag\<close>, \<^verbatim>\<open>onclosetag\<close>, \<^verbatim>\<open>ontext\<close>,
  \<^verbatim>\<open>oncdata\<close>, and the error of a document that is not well formed. \<^verbatim>\<open>xmlToJson\<close>
  sets no \<^verbatim>\<open>onerror\<close> handler: the strict parser keeps the error and throws it.
\<close>

datatype event =
    OpenTag string "(string \<times> string) list"
  | CloseTag string
  | Text string
  | CData string
  | Malformed

subsection \<open>Open tag\<close>

definition isXmlns :: "string \<Rightarrow> bool" where
  "isXmlns a = (take 6 a = ''xmlns:'' \<or> a = ''xmlns'')"

definition registerNamespaces :: "nscontext \<Rightarrow> (string \<times> string) list \<Rightarrow> nscontext" where
  "registerNamespaces ns attrs =
     fold (\<lambda>(a, v) n. if isXmlns a
                       then addNamespace n (if a = ''xmlns'' then [] else drop 6 a) v
                       else n) attrs ns"

text \<open>
  One round of the loop over the regular attributes. The loop carries \<^verbatim>\<open>obj\<close>,
  \<^verbatim>\<open>elementAttributes\<close> (the address of the map once it exists) and the store.
  The value \<^verbatim>\<open>parseValue(attrs[a], attrDescriptor)\<close> is computed by the source and
  never used: the raw text is what is stored.
\<close>

definition attrStep ::
  "options \<Rightarrow> nscontext \<Rightarrow> string \<times> string \<Rightarrow> jsval \<times> addr option \<times> heap
     \<Rightarrow> error + (jsval \<times> addr option \<times> heap)" where
  "attrStep opts ns av st =
     (case (av, st) of ((a, v), (obj, ea, h)) \<Rightarrow>
      if isXmlns a then Inr (obj, ea, h)
      else
        let q = QName_parse a;
            inXsi = (getNamespaceURI ns (prefix q) = Some xsi)
        in if inXsi \<and> name q = ''nil''
           then Inr (if v = ''true'' then JNull else obj, ea, h)
           else
             (case (case ea of Some e \<Rightarrow> (h, e) | None \<Rightarrow> alloc h (HObj [])) of
                (h1, e) \<Rightarrow>
                  if inXsi \<and> name q = ''type''
                  then
                    let xt = QName_parse v;
                        xsiXmlns =
                          (if prefix xt \<noteq> []
                           then (case getNamespaceURI ns (prefix xt) of
                                   Some u \<Rightarrow> JStr u | None \<Rightarrow> JNull)
                           else JNull)
                    in (case alloc h1 (HObj [(''type'', JStr (name xt)), (''xmlns'', xsiXmlns)]) of
                          (h2, x) \<Rightarrow>
                            bindE (setProp h2 (JRef e) (xsiTypeKey opts) (JRef x))
                              (\<lambda>h3. Inr (obj, Some e, h3)))
                  else
                    bindE (setProp h1 (JRef e) (name q) (JStr v))
                      (\<lambda>h3. Inr (obj, Some e, h3))))"

fun attrLoop ::
  "options \<Rightarrow> nscontext \<Rightarrow> (string \<times> string) list \<Rightarrow> jsval \<times> addr option \<times> heap
     \<Rightarrow> error + (jsval \<times> addr option \<times> heap)" where
  "attrLoop opts ns [] st = Inr st"
| "attrLoop opts ns (av # avs) st = bindE (attrStep opts ns av st) (attrLoop opts ns avs)"

text \<open>
  \<^verbatim>\<open>if (elementAttributes) { obj = {}; obj[attributesKey] = elementAttributes; }\<close>
\<close>

definition seedObject :: "options \<Rightarrow> jsval \<times> addr option \<times> heap \<Rightarrow> error + (jsval \<times> heap)" where
  "seedObject opts st =
     (case st of (obj, ea, h) \<Rightarrow>
        (case ea of
           None \<Rightarrow> Inr (obj, h)
         | Some e \<Rightarrow>
             (case alloc h (HObj []) of
                (h1, ob) \<Rightarrow>
                  bindE (setProp h1 (JRef ob) (attributesKey opts) (JRef e))
                    (\<lambda>h2. Inr (JRef ob, h2)))))"

text \<open>
  The object the new frame starts with: \<^verbatim>\<open>obj\<close> after the loop over the attributes
  and the seeding.
\<close>

definition elementObject ::
  "options \<Rightarrow> nscontext \<Rightarrow> (string \<times> string) list \<Rightarrow> heap \<Rightarrow> error + (jsval \<times> heap)" where
  "elementObject opts ns attrs h =
     bindE (attrLoop opts ns attrs (JUndefined, None, h)) (seedObject opts)"

text \<open>
  The registry. \<^verbatim>\<open>refs[id]\<close> of a name that \<^verbatim>\<open>refs\<close> inherits is a built-in and not
  \<^verbatim>\<open>undefined\<close>: no slot is made for it, and \<^verbatim>\<open>refs[id].hrefs.push\<close> throws.
\<close>

definition ensureRef :: "(string \<times> refent) list \<Rightarrow> string \<Rightarrow> (string \<times> refent) list" where
  "ensureRef refs i =
     (if hasOwn refs i \<or> i \<in> set objectPrototype then refs
      else put refs i \<lparr>hrefs = [], r_object = JNull\<rparr>)"

definition pushHref ::
  "(string \<times> refent) list \<Rightarrow> string \<Rightarrow> site \<Rightarrow> error + (string \<times> refent) list" where
  "pushHref refs i st =
     (case map_of (ensureRef refs i) i of
        None \<Rightarrow> Inl TypeError
      | Some ent \<Rightarrow> Inr (put (ensureRef refs i) i (ent\<lparr>hrefs := hrefs ent @ [st]\<rparr>)))"

definition onopentag ::
  "options \<Rightarrow> pstate \<Rightarrow> string \<Rightarrow> (string \<times> string) list \<Rightarrow> error + pstate" where
  "onopentag opts s nsName attrs =
     (case p_stack s of
        [] \<Rightarrow> Inl TypeError
      | topf # below \<Rightarrow>
          let ns = registerNamespaces (pushContext (p_ns s)) attrs in
          bindE (elementObject opts ns attrs (p_heap s)) (\<lambda>(obj, h).
          let elementName = name (QName_parse nsName) in
          bindE (case map_of attrs ''href'' of
                   None \<Rightarrow> Inr (p_refs s)
                 | Some href \<Rightarrow>
                     pushHref (p_refs s) (drop 1 href)
                       \<lparr>s_parent = f_object topf, s_key = elementName, s_object = obj\<rparr>) (\<lambda>refs1.
          let refs2 = (case map_of attrs ''id'' of
                         None \<Rightarrow> refs1
                       | Some i \<Rightarrow> ensureRef refs1 i)
          in Inr \<lparr>p_heap = h,
                  p_stack =
                    \<lparr>f_name = Some elementName, f_object = obj,
                     f_descriptor =
                       (case f_descriptor topf of
                          None \<Rightarrow> None
                        | Some d \<Rightarrow> findElement d elementName),
                     f_id = map_of attrs ''id''\<rparr> # topf # below,
                  p_refs = refs2, p_ns = ns\<rparr>)))"

subsection \<open>Close tag\<close>

definition isArray :: "heap \<Rightarrow> jsval \<Rightarrow> bool" where
  "isArray h v =
     (case v of
        JRef a \<Rightarrow> a < length h \<and> (case h ! a of HArr xs \<Rightarrow> True | HObj ps \<Rightarrow> False)
      | _ \<Rightarrow> False)"

text \<open>\<^verbatim>\<open>val.push(x)\<close> for an array \<^verbatim>\<open>val\<close>.\<close>

definition arrayPush :: "heap \<Rightarrow> jsval \<Rightarrow> jsval \<Rightarrow> heap" where
  "arrayPush h v x =
     (case v of
        JRef a \<Rightarrow> (case h ! a of HArr xs \<Rightarrow> h[a := HArr (xs @ [x])] | HObj ps \<Rightarrow> h)
      | _ \<Rightarrow> h)"

text \<open>
  The merge of the closed frame \<open>cur\<close> into the object \<open>tobj\<close> of the new top frame,
  which is not \<^verbatim>\<open>null\<close> and not \<^verbatim>\<open>undefined\<close> here.
  \<^verbatim>\<open>current.descriptor && current.descriptor.isMany\<close> is \<open>isManyOf\<close>: only an element
  descriptor has the field.
\<close>

fun isManyOf :: "descriptor option \<Rightarrow> bool" where
  "isManyOf (Some (ElementDescriptor q t f m n s j es as inh)) = m"
| "isManyOf d = False"

definition mergeChild :: "heap \<Rightarrow> jsval \<Rightarrow> string \<Rightarrow> frame \<Rightarrow> error + heap" where
  "mergeChild h tobj elementName cur =
     (let many = isManyOf (f_descriptor cur);
          store = (\<lambda>h0. if many
                        then (case alloc h0 (HArr [f_object cur]) of
                                (h1, arr) \<Rightarrow> setProp h1 tobj elementName (JRef arr))
                        else setProp h0 tobj elementName (f_object cur))
      in case tobj of
           JRef a \<Rightarrow>
             if a < length h then
               (case h ! a of
                  HArr xs \<Rightarrow> Inl Unmodelled
                | HObj ps \<Rightarrow>
                    if elementName = ''__proto__'' then Inl Unmodelled
                    else if js_in ps elementName then
                      (let val = getProp ps elementName in
                       if isArray h val then Inr (arrayPush h val (f_object cur))
                       else (case alloc h (HArr [val, f_object cur]) of
                               (h1, arr) \<Rightarrow> setProp h1 tobj elementName (JRef arr)))
                    else store h)
             else Inl Unmodelled
         | JDate t \<Rightarrow> Inl Unmodelled
         | JBuiltin f \<Rightarrow> Inl Unmodelled
         | _ \<Rightarrow> store h)"

text \<open>\<^verbatim>\<open>refs[current.id].object = current.object\<close>\<close>

definition resolveRef ::
  "(string \<times> refent) list \<Rightarrow> string \<Rightarrow> jsval \<Rightarrow> error + (string \<times> refent) list" where
  "resolveRef refs i v =
     (case map_of refs i of
        Some ent \<Rightarrow> Inr (put refs i (ent\<lparr>r_object := v\<rparr>))
      | None \<Rightarrow>
          if i = ''__proto__'' then Inl Unmodelled
          else if i \<in> set objectPrototype then Inr refs
          else Inl TypeError)"

definition onclosetag :: "options \<Rightarrow> pstate \<Rightarrow> string \<Rightarrow> error + pstate" where
  "onclosetag opts s nsName =
     (case p_stack s of
        cur # topf # below \<Rightarrow>
          let elementName = name (QName_parse nsName);
              ns = popContext (p_ns s);
              (h0, tobj) = (if f_object topf = JUndefined
                            then (case alloc (p_heap s) (HObj []) of (h1, a) \<Rightarrow> (h1, JRef a))
                            else (p_heap s, f_object topf))
          in bindE (if tobj \<noteq> JNull then mergeChild h0 tobj elementName cur else Inr h0) (\<lambda>h2.
             bindE (case f_id cur of
                      None \<Rightarrow> Inr (p_refs s)
                    | Some i \<Rightarrow> resolveRef (p_refs s) i (f_object cur)) (\<lambda>refs1.
             Inr \<lparr>p_heap = h2, p_stack = topf\<lparr>f_object := tobj\<rparr> # below,
                  p_refs = refs1, p_ns = ns\<rparr>))
      | _ \<Rightarrow> Inl TypeError)"

subsection \<open>Text\<close>

text \<open>The white space \<^verbatim>\<open>String.prototype.trim\<close> removes, among the code units below 256.\<close>

definition isSpace :: "char \<Rightarrow> bool" where
  "isSpace c = (of_char c \<in> set [9, 10, 11, 12, 13, 32, 160 :: int])"

definition trim :: "string \<Rightarrow> string" where
  "trim s = rev (dropWhile isSpace (rev (dropWhile isSpace s)))"

text \<open>
  \<^verbatim>\<open>_processText(top, val)\<close>, returning the new object of the frame and the store.
  \<^verbatim>\<open>top.object.constructor === Object\<close> holds of a plain object with no own
  property \<^verbatim>\<open>constructor\<close>.
\<close>

definition processText :: "options \<Rightarrow> heap \<Rightarrow> jsval \<Rightarrow> jsval \<Rightarrow> error + (jsval \<times> heap)" where
  "processText opts h tobj val =
     (case tobj of
        JNull \<Rightarrow> Inr (JNull, h)
      | JUndefined \<Rightarrow> Inr (val, h)
      | JRef a \<Rightarrow>
          if a < length h then
            (case h ! a of
               HArr xs \<Rightarrow> Inl Unmodelled
             | HObj ps \<Rightarrow>
                 if hasOwn ps ''constructor'' then Inl Unmodelled
                 else
                   (let value = getProp ps (valueKey opts) in
                    bindE (if value \<noteq> JUndefined then js_add value val else Inr val) (\<lambda>w.
                    bindE (setProp h tobj (valueKey opts) w) (\<lambda>h1. Inr (tobj, h1)))))
          else Inl Unmodelled
      | _ \<Rightarrow> bindE (js_add tobj val) (\<lambda>w. Inr (w, h)))"

definition ontext :: "options \<Rightarrow> pstate \<Rightarrow> string \<Rightarrow> error + pstate" where
  "ontext opts s text0 =
     (let text = trim text0 in
      if text = [] then Inr s
      else (case p_stack s of
              [] \<Rightarrow> Inl TypeError
            | topf # below \<Rightarrow>
                let v = parseValue (JStr text) (f_descriptor topf) in
                bindE (processText opts (p_heap s) (f_object topf) v) (\<lambda>(ob, h).
                Inr (s\<lparr>p_heap := h, p_stack := topf\<lparr>f_object := ob\<rparr> # below\<rparr>))))"

subsection \<open>CDATA\<close>

text \<open>
  The text after the first occurrence of \<open>a\<close> in a text, and the test
  \<^verbatim>\<open>/<\?xml[\s\S]+\?>/.test(text)\<close>: the text has \<^verbatim>\<open><?xml\<close>, then at least one
  character, then \<^verbatim>\<open>?>\<close>.
\<close>

fun afterFirst :: "string \<Rightarrow> string \<Rightarrow> string option" where
  "afterFirst a [] = (if a = [] then Some [] else None)"
| "afterFirst a (c # cs) =
     (if take (length a) (c # cs) = a then Some (drop (length a) (c # cs))
      else afterFirst a cs)"

definition xmlDeclTest :: "string \<Rightarrow> bool" where
  "xmlDeclTest text =
     (case afterFirst ''<?xml'' text of
        None \<Rightarrow> False
      | Some r \<Rightarrow> sublist ''?>'' (drop 1 r))"

text \<open>
  \<^verbatim>\<open>p.oncdata\<close>, with \<^verbatim>\<open>p.handleJsonObject\<close>: the trimmed text goes to
  \<^verbatim>\<open>_processText\<close> as it is, no \<^verbatim>\<open>parseValue\<close>. A text with an XML declaration is
  read by a call of \<^verbatim>\<open>xmlToJson\<close> of its own, on the events of the tokenizer for that
  text: this is outside the embedding, which starts from the events.
\<close>

definition oncdata :: "options \<Rightarrow> pstate \<Rightarrow> string \<Rightarrow> error + pstate" where
  "oncdata opts s text0 =
     (let text = trim text0 in
      if text = [] then Inr s
      else if xmlDeclTest text then Inl Unmodelled
      else (case p_stack s of
              [] \<Rightarrow> Inl TypeError
            | topf # below \<Rightarrow>
                bindE (processText opts (p_heap s) (f_object topf) (JStr text)) (\<lambda>(ob, h).
                Inr (s\<lparr>p_heap := h, p_stack := topf\<lparr>f_object := ob\<rparr> # below\<rparr>))))"

subsection \<open>The whole call\<close>

text \<open>
  \<^verbatim>\<open>p.write(xml).close()\<close>: the handlers see the events one after the other, and the
  error of the tokenizer ends the call.
\<close>

definition step :: "options \<Rightarrow> pstate \<Rightarrow> event \<Rightarrow> error + pstate" where
  "step opts s e =
     (case e of
        OpenTag n attrs \<Rightarrow> onopentag opts s n attrs
      | CloseTag n \<Rightarrow> onclosetag opts s n
      | Text t \<Rightarrow> ontext opts s t
      | CData t \<Rightarrow> oncdata opts s t
      | Malformed \<Rightarrow> Inl SaxError)"

fun run :: "options \<Rightarrow> pstate \<Rightarrow> event list \<Rightarrow> error + pstate" where
  "run opts s [] = Inr s"
| "run opts s (e # es) = bindE (step opts s e) (\<lambda>s1. run opts s1 es)"

text \<open>
  \<^verbatim>\<open>merge(href, obj)\<close>: every own property of \<^verbatim>\<open>obj\<close> is written to
  \<^verbatim>\<open>href.object\<close>. \<^verbatim>\<open>obj.hasOwnProperty\<close> is the inherited function unless \<^verbatim>\<open>obj\<close>
  has an own property of that name, which is never a function here.
\<close>

fun copyProps :: "heap \<Rightarrow> jsval \<Rightarrow> (string \<times> jsval) list \<Rightarrow> error + heap" where
  "copyProps h target [] = Inr h"
| "copyProps h target ((j, v) # ps) =
     bindE (setProp h target j v) (\<lambda>h1. copyProps h1 target ps)"

definition merge :: "heap \<Rightarrow> site \<Rightarrow> jsval \<Rightarrow> error + heap" where
  "merge h href obj =
     (case obj of
        JNull \<Rightarrow> Inr h
      | JUndefined \<Rightarrow> Inr h
      | JRef a \<Rightarrow>
          if a < length h then
            (case h ! a of
               HArr xs \<Rightarrow> Inl Unmodelled
             | HObj ps \<Rightarrow>
                 if hasOwn ps ''hasOwnProperty'' then Inl TypeError
                 else copyProps h (s_object href) ps)
          else Inl Unmodelled
      | _ \<Rightarrow> Inl Unmodelled)"

fun mergeSites :: "heap \<Rightarrow> site list \<Rightarrow> jsval \<Rightarrow> error + heap" where
  "mergeSites h [] obj = Inr h"
| "mergeSites h (x # xs) obj = bindE (merge h x obj) (\<lambda>h1. mergeSites h1 xs obj)"

fun mergeRefs :: "heap \<Rightarrow> (string \<times> refent) list \<Rightarrow> error + heap" where
  "mergeRefs h [] = Inr h"
| "mergeRefs h ((n, r) # rs) =
     bindE (mergeSites h (hrefs r) (r_object r)) (\<lambda>h1. mergeRefs h1 rs)"

subsection \<open>Faults and the result\<close>

text \<open>
  Modelled from the spec: \<^verbatim>\<open>selectn(path, object)\<close> (the package is not part of the
  sources): the value under a dotted path, \<^verbatim>\<open>undefined\<close> as soon as a link is
  missing.
\<close>

definition selectn :: "heap \<Rightarrow> string list \<Rightarrow> jsval \<Rightarrow> jsval" where
  "selectn h path ob = foldl (getField h) ob path"

text \<open>\<^verbatim>\<open>a || b\<close>\<close>

definition orElse :: "jsval \<Rightarrow> jsval \<Rightarrow> jsval" where
  "orElse a b = (if truthy a then a else b)"

text \<open>
  \<^verbatim>\<open>if (x && typeof x === 'string') m = m + label + x\<close>
\<close>

definition appendText :: "string \<Rightarrow> string \<Rightarrow> jsval \<Rightarrow> string" where
  "appendText m label x = (case x of JStr t \<Rightarrow> if t \<noteq> [] then m @ label @ t else m | _ \<Rightarrow> m)"

text \<open>
  \<^verbatim>\<open>if (x) m = m + ' ' + label + JSON.stringify(x)\<close>. \<^verbatim>\<open>JSON.stringify\<close> belongs
  to the language: it is the parameter \<open>stringify\<close>, applied to the store and the value.
\<close>

definition appendDump ::
  "(heap \<Rightarrow> jsval \<Rightarrow> string) \<Rightarrow> heap \<Rightarrow> string \<Rightarrow> string \<Rightarrow> jsval \<Rightarrow> string" where
  "appendDump stringify h m label x = (if truthy x then m @ '' '' @ label @ stringify h x else m)"

text \<open>
  \<^verbatim>\<open>if (detail != null) m = m + label + (typeof detail === 'string' ? detail : JSON.stringify(detail))\<close>
\<close>

definition appendDetail ::
  "(heap \<Rightarrow> jsval \<Rightarrow> string) \<Rightarrow> heap \<Rightarrow> string \<Rightarrow> string \<Rightarrow> jsval \<Rightarrow> string" where
  "appendDetail stringify h m label detail =
     (if nullish detail then m
      else (case detail of
              JStr t \<Rightarrow> m @ label @ t
            | _ \<Rightarrow> m @ label @ stringify h detail))"

definition getSoap11FaultErrorMessage ::
  "(heap \<Rightarrow> jsval \<Rightarrow> string) \<Rightarrow> heap \<Rightarrow> jsval \<Rightarrow> string option" where
  "getSoap11FaultErrorMessage stringify h faultBody =
     (let faultcode = orElse (selectn h [''faultcode'', ''$value''] faultBody)
                             (selectn h [''faultcode''] faultBody)
      in if truthy faultcode then
           (let m0 = (case faultcode of JStr c \<Rightarrow> ''faultcode: '' @ c | _ \<Rightarrow> '' '');
                faultstring = orElse (selectn h [''faultstring'', ''$value''] faultBody)
                                     (selectn h [''faultstring''] faultBody);
                m1 = appendText m0 '' faultstring: '' faultstring;
                faultactor = orElse (selectn h [''faultactor'', ''$value''] faultBody)
                                    (selectn h [''faultactor''] faultBody);
                m2 = appendText m1 '' faultactor: '' faultactor;
                detail = orElse (selectn h [''detail'', ''$value''] faultBody)
                                (selectn h [''detail''] faultBody)
            in Some (appendDetail stringify h m2 '' detail: '' detail))
         else None)"

definition getSoap12FaultErrorMessage ::
  "(heap \<Rightarrow> jsval \<Rightarrow> string) \<Rightarrow> heap \<Rightarrow> jsval \<Rightarrow> string option" where
  "getSoap12FaultErrorMessage stringify h faultBody =
     (let code = orElse (selectn h [''Code''] faultBody) (selectn h [''Code''] faultBody)
      in if truthy code then
           (let m0 = '' '' @ ''Code: '' @ stringify h code;
                m1 = appendDump stringify h m0 ''Value: ''
                       (orElse (selectn h [''Value'', ''$value''] faultBody)
                               (selectn h [''Value''] faultBody));
                m2 = appendDump stringify h m1 ''Subcode: ''
                       (orElse (selectn h [''Subcode'', ''$value''] faultBody)
                               (selectn h [''Subcode''] faultBody));
                m3 = appendDump stringify h m2 ''Reason: ''
                       (orElse (selectn h [''reason'', ''$value''] faultBody)
                               (selectn h [''Reason''] faultBody));
                m4 = appendDump stringify h m3 ''Node: ''
                       (orElse (selectn h [''Node'', ''$value''] faultBody)
                               (selectn h [''Node''] faultBody));
                m5 = appendDump stringify h m4 ''Role: ''
                       (orElse (selectn h [''Role'', ''$value''] faultBody)
                               (selectn h [''Role''] faultBody));
                detail = orElse (selectn h [''Detail'', ''$value''] faultBody)
                                (selectn h [''Detail''] faultBody)
            in Some (appendDetail stringify h m5 '' Detail: '' detail))
         else None)"

text \<open>The message of the fault error: SOAP 1.1, else SOAP 1.2, else the generic one.\<close>

definition faultMessage :: "(heap \<Rightarrow> jsval \<Rightarrow> string) \<Rightarrow> heap \<Rightarrow> jsval \<Rightarrow> string" where
  "faultMessage stringify h fault =
     (case getSoap11FaultErrorMessage stringify h fault of
        Some m \<Rightarrow> m
      | None \<Rightarrow>
          (case getSoap12FaultErrorMessage stringify h fault of
             Some m \<Rightarrow> m
           | None \<Rightarrow> ''Error occurred processing Fault response.''))"

text \<open>The end of \<^verbatim>\<open>xmlToJson\<close>, after the merges: the fault check and the result.\<close>

definition finish ::
  "(heap \<Rightarrow> jsval \<Rightarrow> string) \<Rightarrow> heap \<Rightarrow> jsval \<Rightarrow> error + (jsval \<times> heap)" where
  "finish stringify h root =
     (let envelope = getField h root ''Envelope'' in
      if truthy envelope then
        (let body = getField h envelope ''Body'' in
         if \<not> nullish body \<and> \<not> nullish (getField h body ''Fault'')
         then Inl (FaultError (faultMessage stringify h (getField h body ''Fault'')) root h)
         else Inr (envelope, h))
      else Inr (root, h))"

text \<open>
  \<^verbatim>\<open>xmlToJson(nsContext, xml, descriptor)\<close> on the events the tokenizer reads from
  \<^verbatim>\<open>xml\<close>. The root object is the first object of the store.
\<close>

definition initialState :: "nscontext \<Rightarrow> descriptor option \<Rightarrow> pstate" where
  "initialState ns descriptor =
     \<lparr>p_heap = [HObj []],
      p_stack = [\<lparr>f_name = None, f_object = JRef 0, f_descriptor = descriptor, f_id = None\<rparr>],
      p_refs = [], p_ns = ns\<rparr>"

definition xmlToJson ::
  "options \<Rightarrow> (heap \<Rightarrow> jsval \<Rightarrow> string) \<Rightarrow> nscontext \<Rightarrow> event list \<Rightarrow> descriptor option
     \<Rightarrow> error + (jsval \<times> heap)" where
  "xmlToJson opts stringify ns xml descriptor =
     bindE (run opts (initialState ns descriptor) xml) (\<lambda>s.
     bindE (mergeRefs (p_heap s) (p_refs s)) (\<lambda>h.
     finish stringify h (JRef 0)))"

section \<open>Value trees\<close>

text \<open>
  A value read out of the store as a tree, to a depth: the value tree a caller sees.
  \<open>VCut\<close> stands where the depth is used up.
\<close>

datatype json =
    VUndefined
  | VNull
  | VStr string
  | VBool bool
  | VDate string
  | VBuiltin string
  | VArr "json list"
  | VObj "(string \<times> json) list"
  | VCut

fun reify :: "nat \<Rightarrow> heap \<Rightarrow> jsval \<Rightarrow> json" where
  "reify n h JUndefined = VUndefined"
| "reify n h JNull = VNull"
| "reify n h (JStr s) = VStr s"
| "reify n h (JBool b) = VBool b"
| "reify n h (JDate t) = VDate t"
| "reify n h (JBuiltin f) = VBuiltin f"
| "reify 0 h (JRef a) = VCut"
| "reify (Suc n) h (JRef a) =
     (if a < length h then
        (case h ! a of
           HObj ps \<Rightarrow> VObj (map (\<lambda>p. (fst p, reify n h (snd p))) ps)
         | HArr xs \<Rightarrow> VArr (map (reify n h) xs))
      else VCut)"

text \<open>The objects of the frames of a state as trees, the top frame first.\<close>

definition frameTrees :: "nat \<Rightarrow> pstate \<Rightarrow> json list" where
  "frameTrees n s = map (\<lambda>f. reify n (p_heap s) (f_object f)) (p_stack s)"

definition runTrees ::
  "nat \<Rightarrow> options \<Rightarrow> nscontext \<Rightarrow> descriptor option \<Rightarrow> event list \<Rightarrow> error + json list" where
  "runTrees n opts ns d xml =
     (case run opts (initialState ns d) xml of
        Inl e \<Rightarrow> Inl e
      | Inr s \<Rightarrow> Inr (frameTrees n s))"

text \<open>The result of a call as a tree.\<close>

definition resultTree :: "nat \<Rightarrow> error + (jsval \<times> heap) \<Rightarrow> error + json" where
  "resultTree n r = (case r of Inl e \<Rightarrow> Inl e | Inr (v, h) \<Rightarrow> Inr (reify n h v))"

section \<open>Vocabulary of the properties\<close>

text \<open>
  In the scopes \<open>ns\<close> of an element, an attribute name is \<^verbatim>\<open>xsi:nil\<close> when it is no
  namespace declaration, its prefix resolves to the XML-Schema-Instance namespace and
  its local name is \<open>nil\<close>; it is a regular attribute when it is neither a namespace
  declaration nor \<^verbatim>\<open>xsi:nil\<close>. A regular attribute is recorded under \<open>attrKey\<close>: the
  xsi-type key for \<^verbatim>\<open>xsi:type\<close>, its local name otherwise.
\<close>

definition isNilAttr :: "nscontext \<Rightarrow> string \<Rightarrow> bool" where
  "isNilAttr ns a =
     (\<not> isXmlns a \<and> getNamespaceURI ns (prefix (QName_parse a)) = Some xsi
      \<and> name (QName_parse a) = ''nil'')"

definition isRegularAttr :: "nscontext \<Rightarrow> string \<Rightarrow> bool" where
  "isRegularAttr ns a = (\<not> isXmlns a \<and> \<not> isNilAttr ns a)"

definition attrKey :: "options \<Rightarrow> nscontext \<Rightarrow> string \<Rightarrow> string" where
  "attrKey opts ns a =
     (if getNamespaceURI ns (prefix (QName_parse a)) = Some xsi \<and> name (QName_parse a) = ''type''
      then xsiTypeKey opts else name (QName_parse a))"


text \<open>
  The loop over the attributes keeps this: the attribute map \<open>ea\<close>, once it exists, is an
  object of the store with the properties \<open>ps\<close>.
\<close>

definition amapOK :: "addr option \<Rightarrow> heap \<Rightarrow> (string \<times> jsval) list \<Rightarrow> bool" where
  "amapOK ea h ps = (case ea of None \<Rightarrow> ps = [] | Some e \<Rightarrow> e < length h \<and> h ! e = HObj ps)"






text \<open>The merge sites recorded in a registry for an id.\<close>

definition sitesOf :: "(string \<times> refent) list \<Rightarrow> string \<Rightarrow> site list" where
  "sitesOf refs i = (case map_of refs i of None \<Rightarrow> [] | Some ent \<Rightarrow> hrefs ent)"


section \<open>The serializer: the order of the properties\<close>

text \<open>
  \<^verbatim>\<open>order.indexOf(n)\<close>, and the comparison function of \<^verbatim>\<open>_sortKeys\<close>: the difference
  of the two indices, a name that is not in the list counting as the length.
\<close>

fun indexOf :: "string list \<Rightarrow> string \<Rightarrow> int" where
  "indexOf [] n = - 1"
| "indexOf (m # ms) n =
     (if m = n then 0 else (let i = indexOf ms n in if i = - 1 then - 1 else i + 1))"

definition compare :: "string \<Rightarrow> string \<Rightarrow> string list \<Rightarrow> int" where
  "compare n1 n2 order =
     (let i1 = indexOf order n1;
          i1 = (if i1 = - 1 then int (length order) else i1);
          i2 = indexOf order n2;
          i2 = (if i2 = - 1 then int (length order) else i2)
      in i1 - i2)"

text \<open>
  \<^verbatim>\<open>Array.prototype.sort\<close> with a comparison function belongs to the language, which
  makes it stable: it is the insertion sort that puts an element before the first
  one it does not come after.
\<close>

fun insertBy :: "('a \<Rightarrow> 'a \<Rightarrow> int) \<Rightarrow> 'a \<Rightarrow> 'a list \<Rightarrow> 'a list" where
  "insertBy c x [] = [x]"
| "insertBy c x (y # ys) = (if c x y \<le> 0 then x # y # ys else y # insertBy c x ys)"

definition sortBy :: "('a \<Rightarrow> 'a \<Rightarrow> int) \<Rightarrow> 'a list \<Rightarrow> 'a list" where
  "sortBy c xs = foldr (insertBy c) xs []"

text \<open>
  \<^verbatim>\<open>_sortKeys(val, elementOrder)\<close> on \<open>keys\<close>, the list \<^verbatim>\<open>Object.keys(val)\<close>: the own
  property names of the value in their original order.
\<close>

definition sortKeys :: "string list \<Rightarrow> string list \<Rightarrow> string list" where
  "sortKeys keys elementOrder =
     sortBy (\<lambda>n1 n2. let result = compare n1 n2 elementOrder
                      in if result = 0 then compare n1 n2 keys else result) keys"


text \<open>
  The position of the first occurrence of a name in a list, the length of the list
  for a name that is not in it; and the order claim C9 describes: the properties that
  match a declared element name, by the position of the declaration, then the other
  properties as they are.
\<close>

fun pos :: "'a list \<Rightarrow> 'a \<Rightarrow> nat" where
  "pos [] x = 0"
| "pos (y # ys) x = (if y = x then 0 else Suc (pos ys x))"

definition declaredFirst :: "string list \<Rightarrow> string list \<Rightarrow> string list" where
  "declaredFirst keys elementOrder =
     sort_key (pos elementOrder) (filter (\<lambda>k. k \<in> set elementOrder) keys)
     @ filter (\<lambda>k. k \<notin> set elementOrder) keys"


section \<open>The serializer\<close>

text \<open>
  Modelled from the spec: the tree builder (the package \<^verbatim>\<open>xmlbuilder\<close> is not part of the
  sources). An element has a name, attributes and children; \<^verbatim>\<open>element(name[, text])\<close>
  appends a child element, \<^verbatim>\<open>attribute(name, value)\<close> sets an attribute,
  \<^verbatim>\<open>text\<close>, \<^verbatim>\<open>cdata\<close> and \<^verbatim>\<open>raw\<close> append content. A child is appended to its parent
  here once it is complete, which gives the same tree, the children of a parent being
  built one after the other.
\<close>

datatype xml = XElem (x_name: string) (x_attrs: "(string \<times> string) list") (x_children: "xchild list")
  and xchild = XChild xml | XText string | XCData string | XRaw string

text \<open>
  The text the builder writes for a value: that of a string or a boolean, none for
  \<^verbatim>\<open>null\<close> and \<^verbatim>\<open>undefined\<close>. The text of a date object depends on the time zone of
  the process, and an object passed as second argument of \<^verbatim>\<open>element\<close> is read by the
  builder as attributes: both are outside the embedding.
\<close>

fun scalarText :: "json \<Rightarrow> error + string option" where
  "scalarText VUndefined = Inr None"
| "scalarText VNull = Inr None"
| "scalarText (VStr s) = Inr (Some s)"
| "scalarText (VBool b) = Inr (Some (if b then ''true'' else ''false''))"
| "scalarText v = Inl Unmodelled"

definition attribute :: "xml \<Rightarrow> string \<Rightarrow> json \<Rightarrow> error + xml" where
  "attribute node k v =
     bindE (scalarText v) (\<lambda>t.
       case t of
         None \<Rightarrow> Inr node
       | Some s \<Rightarrow> Inr (XElem (x_name node) (put (x_attrs node) k s) (x_children node)))"

definition appendChild :: "xml \<Rightarrow> xchild \<Rightarrow> xml" where
  "appendChild node c = XElem (x_name node) (x_attrs node) (x_children node @ [c])"

text \<open>\<^verbatim>\<open>node.text(v)\<close>, \<^verbatim>\<open>node.cdata(v)\<close>, \<^verbatim>\<open>node.raw(v)\<close>; \<^verbatim>\<open>element(name, v)\<close> is an
  element with the text, if any.\<close>

definition addText :: "(string \<Rightarrow> xchild) \<Rightarrow> xml \<Rightarrow> json \<Rightarrow> error + xml" where
  "addText kind node v =
     bindE (scalarText v) (\<lambda>t.
       case t of
         None \<Rightarrow> Inr node
       | Some s \<Rightarrow> Inr (appendChild node (kind s)))"

text \<open>
  The handler with what it is built from and what it calls: the options; the rule
  \<^verbatim>\<open>restriction.enforce\<close> that the schemas give for the declared type of a descriptor,
  if any; the descriptor \<^verbatim>\<open>describe()\<close> gives for a type name the schemas know;
  \<^verbatim>\<open>new Date(v).toISOString()\<close>, which throws a \<^verbatim>\<open>RangeError\<close> on an invalid date; the
  prefix the namespace scopes make up for a URI declared with none.
\<close>

record env =
  e_options :: options
  e_restriction :: "descriptor \<Rightarrow> (json \<Rightarrow> json) option"
  e_describe :: "qname \<Rightarrow> descriptor option"
  e_toISOString :: "json \<Rightarrow> string option"
  e_generatePrefix :: "nscontext \<Rightarrow> string"

text \<open>
  Modelled from the spec: \<^verbatim>\<open>getPrefixMapping\<close> and \<^verbatim>\<open>declareNamespace\<close> of the
  namespace scopes. A URI that is visible yields its binding; one that is not is
  bound in the current frame, under the prefix asked for or a made-up one, and marked
  declared.
\<close>

definition getPrefixMapping :: "nscontext \<Rightarrow> string \<Rightarrow> (string \<times> string \<times> bool) option" where
  "getPrefixMapping ns u = find (\<lambda>m. fst (snd m) = u) (concat ns)"

definition nsDeclare ::
  "env \<Rightarrow> nscontext \<Rightarrow> string \<Rightarrow> string \<Rightarrow> (string \<times> string \<times> bool) option \<times> nscontext" where
  "nsDeclare ev ns p u =
     (case getPrefixMapping ns u of
        Some m \<Rightarrow> (Some m, ns)
      | None \<Rightarrow>
          (case ns of
             [] \<Rightarrow> (None, ns)
           | f # fs \<Rightarrow>
               (let m = (if p = [] then e_generatePrefix ev ns else p, u, True)
                in (Some m, (m # f) # fs))))"

text \<open>
  \<^verbatim>\<open>declareNamespace(nsContext, node, prefix, nsURI)\<close> of the source, for a node and
  for \<^verbatim>\<open>null\<close>.
\<close>

definition declareNamespace ::
  "env \<Rightarrow> nscontext \<Rightarrow> xml \<Rightarrow> string \<Rightarrow> string
     \<Rightarrow> (string \<times> string \<times> bool) option \<times> nscontext \<times> xml" where
  "declareNamespace ev ns node p u =
     (case nsDeclare ev ns p u of
        (None, ns1) \<Rightarrow> (None, ns1, node)
      | (Some m, ns1) \<Rightarrow>
          (Some m, ns1,
           XElem (x_name node) (put (x_attrs node) (''xmlns:'' @ fst m) (fst (snd m)))
             (x_children node)))"

subsection \<open>Dates and times\<close>

text \<open>\<^verbatim>\<open>isoStr.split('T')[1]\<close>\<close>

definition afterT :: "string \<Rightarrow> json" where
  "afterT isoStr =
     (if CHR ''T'' \<in> set isoStr
      then VStr (takeWhile (\<lambda>c. c \<noteq> CHR ''T'') (drop 1 (dropWhile (\<lambda>c. c \<noteq> CHR ''T'') isoStr)))
      else VUndefined)"

definition toXmlTime :: "env \<Rightarrow> json \<Rightarrow> error + json" where
  "toXmlTime ev v = (case e_toISOString ev v of None \<Rightarrow> Inl RangeError | Some isoStr \<Rightarrow> Inr (afterT isoStr))"

definition toXmlDateTime :: "env \<Rightarrow> json \<Rightarrow> error + json" where
  "toXmlDateTime ev v = (case e_toISOString ev v of None \<Rightarrow> Inl RangeError | Some isoStr \<Rightarrow> Inr (VStr isoStr))"

fun typeOf :: "descriptor option \<Rightarrow> qname option" where
  "typeOf None = None"
| "typeOf (Some (TypeDescriptor es as)) = None"
| "typeOf (Some d) = d_type d"

definition toXmlDateOrTime :: "env \<Rightarrow> descriptor option \<Rightarrow> json \<Rightarrow> error + json" where
  "toXmlDateOrTime ev d v =
     (case typeOf d of
        None \<Rightarrow> Inr v
      | Some t \<Rightarrow>
          if v = VNull then Inr v
          else if name t = ''date'' then Inr v
          else if name t = ''time'' then toXmlTime ev v
          else if name t = ''dateTime'' then toXmlDateTime ev v
          else Inr v)"


subsection \<open>Reading the value\<close>

text \<open>
  \<^verbatim>\<open>val[k]\<close> for a value of the caller: an own property of an object, else an inherited
  member, else \<^verbatim>\<open>undefined\<close>; \<^verbatim>\<open>undefined\<close> for the keys of the handler on a string,
  a boolean, a date or an array. On \<^verbatim>\<open>null\<close> and \<^verbatim>\<open>undefined\<close> the read throws.
\<close>

definition vget :: "json \<Rightarrow> string \<Rightarrow> json" where
  "vget v k =
     (case v of
        VObj ps \<Rightarrow>
          (case map_of ps k of
             Some w \<Rightarrow> w
           | None \<Rightarrow> if k \<in> set objectPrototype then VBuiltin k else VUndefined)
      | _ \<Rightarrow> VUndefined)"

definition vnullish :: "json \<Rightarrow> bool" where
  "vnullish v = (v = VUndefined \<or> v = VNull)"

text \<open>\<^verbatim>\<open>typeof v === 'object'\<close>, which holds of \<^verbatim>\<open>null\<close> too.\<close>

fun typeofObject :: "json \<Rightarrow> bool" where
  "typeofObject VNull = True"
| "typeofObject (VDate t) = True"
| "typeofObject (VArr xs) = True"
| "typeofObject (VObj ps) = True"
| "typeofObject v = False"

fun isVArr :: "json \<Rightarrow> bool" where
  "isVArr (VArr xs) = True"
| "isVArr v = False"

text \<open>
  The head of the element branch: the attributes and the working value.
  \<^verbatim>\<open>attrs\<close> is \<^verbatim>\<open>null\<close> unless the value is an object with the attributes-key.
\<close>

definition splitValue :: "options \<Rightarrow> json \<Rightarrow> json \<times> json" where
  "splitValue opts v =
     (if v \<noteq> VNull \<and> typeofObject v
      then (if vget v (attributesKey opts) \<noteq> VUndefined then vget v (attributesKey opts) else VNull,
            if vget v (valueKey opts) \<noteq> VUndefined then vget v (valueKey opts) else v)
      else (VNull, v))"

text \<open>
  The name of the element and the \<^verbatim>\<open>xmlns\<close> attribute to write, in a new scope.
\<close>

definition resolveName ::
  "env \<Rightarrow> nscontext \<Rightarrow> descriptor \<Rightarrow> string \<times> string option \<times> nscontext" where
  "resolveName ev ns0 d =
     (let ns = pushContext ns0; q = d_qname d in
      if d_form d = ''unqualified'' then (name q, None, ns)
      else
        (let found = getPrefixMapping ns (nsURI q);
             newlyDeclared = (case found of None \<Rightarrow> True | Some m \<Rightarrow> \<not> snd (snd m));
             (mapping, ns1) = (if newlyDeclared then nsDeclare ev ns (prefix q) (nsURI q)
                               else (found, ns));
             p = (case mapping of None \<Rightarrow> prefix q | Some m \<Rightarrow> fst m);
             elementName = (if p \<noteq> [] then p @ '':'' @ name q else name q)
         in (elementName,
             if newlyDeclared then Some (if p \<noteq> [] then ''xmlns:'' @ p else ''xmlns'') else None,
             ns1)))"

text \<open>
  \<^verbatim>\<open>/<!\[CDATA/.test(val)\<close> tests the text of the value; \<^verbatim>\<open>val.replace(a, '')\<close> removes
  the first occurrence of \<^verbatim>\<open>a\<close>.
\<close>

fun cdataTest :: "json \<Rightarrow> error + bool" where
  "cdataTest (VStr s) = Inr (sublist ''<![CDATA'' s)"
| "cdataTest (VArr xs) = Inl Unmodelled"
| "cdataTest (VObj ps) =
     (if hasOwn ps ''toString'' \<or> hasOwn ps ''valueOf'' then Inl Unmodelled else Inr False)"
| "cdataTest v = Inr False"

fun removeFirst :: "string \<Rightarrow> string \<Rightarrow> string" where
  "removeFirst a [] = []"
| "removeFirst a (c # cs) =
     (if a \<noteq> [] \<and> take (length a) (c # cs) = a then drop (length a) (c # cs)
      else c # removeFirst a cs)"

text \<open>
  The restriction of the declared type, when restrictions are enforced. Restrictions
  belong to simple types: a rule that turns the value into another object or array is
  outside the embedding.
\<close>

fun isStructured :: "json \<Rightarrow> bool" where
  "isStructured (VArr xs) = True"
| "isStructured (VObj ps) = True"
| "isStructured v = False"

definition enforce :: "env \<Rightarrow> descriptor \<Rightarrow> json \<Rightarrow> error + json" where
  "enforce ev d v =
     (if enforceRestrictions (e_options ev) \<and> typeOf (Some d) \<noteq> None
      then (case e_restriction ev d of
              None \<Rightarrow> Inr v
            | Some r \<Rightarrow> if r v = v \<or> \<not> isStructured (r v) then Inr (r v) else Inl Unmodelled)
      else Inr v)"

text \<open>
  The element as it is created, with the working value after it: a CDATA section, raw
  content, or the text of a simple element.
\<close>

definition createElement :: "env \<Rightarrow> descriptor \<Rightarrow> string \<Rightarrow> json \<Rightarrow> error + (xml \<times> json)" where
  "createElement ev d elementName v =
     bindE (if isSimple d then cdataTest v else Inr False) (\<lambda>cdata.
     if cdata then
       (case v of
          VStr s \<Rightarrow>
            (let t = removeFirst '']]>'' (removeFirst ''<![CDATA['' s)
             in Inr (XElem elementName [] [XCData t], VStr t))
        | _ \<Rightarrow> Inl Unmodelled)
     else if isSimple d \<and> \<not> vnullish v \<and> vget v (xmlKey (e_options ev)) \<noteq> VUndefined then
       bindE (toXmlDateOrTime ev (Some d) (vget v (xmlKey (e_options ev)))) (\<lambda>w.
       bindE (addText XRaw (XElem elementName [] []) w) (\<lambda>el. Inr (el, w)))
     else
       bindE (enforce ev d v) (\<lambda>u.
       bindE (toXmlDateOrTime ev (Some d) u) (\<lambda>w.
       if isSimple d
       then bindE (addText XText (XElem elementName [] []) w) (\<lambda>el. Inr (el, w))
       else Inr (XElem elementName [] [], w))))"

text \<open>The \<^verbatim>\<open>xmlns\<close> attribute of a newly declared namespace, and \<^verbatim>\<open>xsi:nil\<close>.\<close>

definition declareElement ::
  "env \<Rightarrow> nscontext \<Rightarrow> descriptor \<Rightarrow> string option \<Rightarrow> xml \<Rightarrow> json \<Rightarrow> xml \<times> nscontext" where
  "declareElement ev ns d xmlns el v =
     (let el1 = (case xmlns of
                   None \<Rightarrow> el
                 | Some x \<Rightarrow>
                     if nsURI (d_qname d) \<noteq> []
                     then XElem (x_name el) (put (x_attrs el) x (nsURI (d_qname d))) (x_children el)
                     else el)
      in if vnullish v \<and> isNillable d
         then (case declareNamespace ev ns el1 ''xsi'' xsi of
                 (m, ns1, el2) \<Rightarrow>
                   (XElem (x_name el2) (put (x_attrs el2) ''xsi:nil'' ''true'') (x_children el2),
                    ns1))
         else (el1, ns))"

subsection \<open>Attributes\<close>

text \<open>The branch of \<^verbatim>\<open>jsonToXml\<close> for an attribute descriptor.\<close>

definition attributeToXml ::
  "env \<Rightarrow> xml \<Rightarrow> nscontext \<Rightarrow> descriptor \<Rightarrow> json \<Rightarrow> error + (xml \<times> nscontext)" where
  "attributeToXml ev node ns d v =
     bindE (toXmlDateOrTime ev (Some d) v) (\<lambda>w.
     if d_form d = ''unqualified''
     then bindE (attribute node (name (d_qname d)) w) (\<lambda>n. Inr (n, ns))
     else
       (case declareNamespace ev ns node (prefix (d_qname d)) (nsURI (d_qname d)) of
          (mapping, ns1, node1) \<Rightarrow>
            (let p = (case mapping of None \<Rightarrow> prefix (d_qname d) | Some m \<Rightarrow> fst m);
                 attrName = (if p \<noteq> [] then p @ '':'' @ name (d_qname d) else name (d_qname d))
             in bindE (attribute node1 attrName w) (\<lambda>n. Inr (n, ns1)))))"

text \<open>
  The type an xsi-type entry names: \<^verbatim>\<open>QName.parse(child.type, child.xmlns)\<close> for an
  object with a \<^verbatim>\<open>type\<close>, \<^verbatim>\<open>QName.parse(child)\<close> otherwise.
\<close>

definition xsiTypeName :: "json \<Rightarrow> error + qname" where
  "xsiTypeName child =
     (case child of
        VNull \<Rightarrow> Inl TypeError
      | VStr s \<Rightarrow> Inr (QName_parse s)
      | VObj cps \<Rightarrow>
          (case vget child ''type'' of
             VStr t \<Rightarrow>
               (case vget child ''xmlns'' of
                  VStr u \<Rightarrow> Inr ((QName_parse t)\<lparr>nsURI := u\<rparr>)
                | VUndefined \<Rightarrow> Inr (QName_parse t)
                | VNull \<Rightarrow> Inr (QName_parse t)
                | _ \<Rightarrow> Inl Unmodelled)
           | _ \<Rightarrow> Inl Unmodelled)
      | _ \<Rightarrow> Inl Unmodelled)"

text \<open>\<^verbatim>\<open>getXsiType(descriptor, attrs)\<close>\<close>

definition getXsiType :: "env \<Rightarrow> json \<Rightarrow> error + descriptor option" where
  "getXsiType ev attrs =
     (case attrs of
        VObj aps \<Rightarrow>
          (case map_of aps (xsiTypeKey (e_options ev)) of
             None \<Rightarrow> Inr None
           | Some child \<Rightarrow> bindE (xsiTypeName child) (\<lambda>q. Inr (e_describe ev q)))
      | VArr xs \<Rightarrow> Inl Unmodelled
      | _ \<Rightarrow> Inr None)"

fun isAttributeDescriptor :: "descriptor \<Rightarrow> bool" where
  "isAttributeDescriptor (AttributeDescriptor q t f j) = True"
| "isAttributeDescriptor d = False"

fun isElementDescriptor :: "descriptor \<Rightarrow> bool" where
  "isElementDescriptor (ElementDescriptor q t f m n s j es as inh) = True"
| "isElementDescriptor d = False"

text \<open>
  A table \<^verbatim>\<open>t[name] = descriptor\<close> filled from a list of descriptors and read at a
  name: the last descriptor of that name, an inherited member of the table, or nothing.
\<close>

datatype found = Found descriptor | Inherited | Missing

definition lookupByName :: "descriptor list \<Rightarrow> string \<Rightarrow> found" where
  "lookupByName ds p =
     (case find (\<lambda>d. localName d = p) (rev ds) of
        Some d \<Rightarrow> Found d
      | None \<Rightarrow> if p \<in> set objectPrototype then Inherited else Missing)"

text \<open>One round of the loop of \<^verbatim>\<open>addAttributes\<close> over the attribute map.\<close>

definition addAttribute ::
  "env \<Rightarrow> descriptor list \<Rightarrow> string \<times> json \<Rightarrow> xml \<times> nscontext \<Rightarrow> error + (xml \<times> nscontext)" where
  "addAttribute ev attrDescriptors pc st =
     (case (pc, st) of ((p, child), (node, ns)) \<Rightarrow>
      if p = xsiTypeKey (e_options ev) then
        bindE (xsiTypeName child) (\<lambda>xsiType.
          case declareNamespace ev ns node ''xsi'' xsi of
            (m0, ns1, node1) \<Rightarrow>
              (case declareNamespace ev ns1 node1 (prefix xsiType) (nsURI xsiType) of
                 (mapping, ns2, node2) \<Rightarrow>
                   (let px = (case mapping of None \<Rightarrow> prefix xsiType | Some m \<Rightarrow> fst m)
                    in Inr (XElem (x_name node2)
                              (put (x_attrs node2) ''xsi:type''
                                 (if px \<noteq> [] then px @ '':'' @ name xsiType else name xsiType))
                              (x_children node2), ns2))))
      else
        (case lookupByName attrDescriptors p of
           Found d \<Rightarrow> attributeToXml ev node ns d child
         | Inherited \<Rightarrow> Inr (node, ns)
         | Missing \<Rightarrow>
             if ignoreUnknownProperties (e_options ev) then Inr (node, ns)
             else attributeToXml ev node ns
                    (AttributeDescriptor (QName_parse p) None ''unqualified'' JsAbsent) child))"

fun addAttributeLoop ::
  "env \<Rightarrow> descriptor list \<Rightarrow> (string \<times> json) list \<Rightarrow> xml \<times> nscontext \<Rightarrow> error + (xml \<times> nscontext)" where
  "addAttributeLoop ev ads [] st = Inr st"
| "addAttributeLoop ev ads (pc # pcs) st =
     bindE (addAttribute ev ads pc st) (addAttributeLoop ev ads pcs)"

text \<open>
  \<^verbatim>\<open>addAttributes(node, nsContext, descriptor, val, attrs)\<close>. The attributes of a
  descriptor are attribute descriptors; an array as attribute map is outside the
  embedding.
\<close>

definition addAttributes ::
  "env \<Rightarrow> xml \<Rightarrow> nscontext \<Rightarrow> descriptor option \<Rightarrow> json \<Rightarrow> error + (xml \<times> nscontext)" where
  "addAttributes ev node ns d attrs =
     (let ads = (case d of None \<Rightarrow> [] | Some x \<Rightarrow> attributesOf x) in
      if \<not> list_all isAttributeDescriptor ads then Inl Unmodelled
      else (case attrs of
              VObj aps \<Rightarrow> addAttributeLoop ev ads aps (node, ns)
            | VArr xs \<Rightarrow> Inl Unmodelled
            | _ \<Rightarrow> Inr (node, ns)))"

subsection \<open>Type substitution\<close>

text \<open>
  The key \<^verbatim>\<open>child.type\<close> under which the inheritance table is read.
\<close>

definition typeKey :: "json \<Rightarrow> error + string" where
  "typeKey child =
     (case child of
        VNull \<Rightarrow> Inl TypeError
      | VUndefined \<Rightarrow> Inl TypeError
      | VObj cps \<Rightarrow>
          (case vget child ''type'' of
             VStr t \<Rightarrow> Inr t
           | VUndefined \<Rightarrow> Inr ''undefined''
           | _ \<Rightarrow> Inl Unmodelled)
      | _ \<Rightarrow> Inr ''undefined'')"

text \<open>
  The loop over the attribute map of a structured value: an xsi-type entry that names
  a subtype of the inheritance table appends the elements of the extension to the
  elements of the descriptor. The descriptor is written, and stays so.
\<close>

definition applyInheritance :: "options \<Rightarrow> descriptor \<Rightarrow> json \<Rightarrow> error + descriptor" where
  "applyInheritance opts d v =
     (if vnullish v then Inr d
      else (case vget v (attributesKey opts) of
              VObj aps \<Rightarrow>
                (case map_of aps (xsiTypeKey opts) of
                   None \<Rightarrow> Inr d
                 | Some child \<Rightarrow>
                     (case d of
                        ElementDescriptor q t f m n s j es as inh \<Rightarrow>
                          (case inh of
                             None \<Rightarrow> Inr d
                           | Some table \<Rightarrow>
                               bindE (typeKey child) (\<lambda>k.
                                 case map_of table k of
                                   Some ext \<Rightarrow>
                                     Inr (ElementDescriptor q t f m n s j (es @ ext) as inh)
                                 | None \<Rightarrow>
                                     if k \<in> set objectPrototype then Inl Unmodelled
                                     else Inr d))
                      | _ \<Rightarrow> Inr d))
            | VArr xs \<Rightarrow> Inl Unmodelled
            | _ \<Rightarrow> Inr d))"


subsection \<open>The recursive mapping\<close>

fun isDate :: "json \<Rightarrow> bool" where
  "isDate (VDate t) = True"
| "isDate v = False"

text \<open>
  The tables \<^verbatim>\<open>elements\<close> and \<^verbatim>\<open>attributes\<close> of \<^verbatim>\<open>mapObject\<close> are filled from element
  descriptors and attribute descriptors; the name \<^verbatim>\<open>__proto__\<close> would replace the
  prototype of a table.
\<close>

definition tablesOK :: "descriptor option \<Rightarrow> bool" where
  "tablesOK d =
     (case d of
        None \<Rightarrow> True
      | Some x \<Rightarrow>
          \<not> isAttributeDescriptor x
          \<and> list_all isElementDescriptor (elementsOf x)
          \<and> list_all isAttributeDescriptor (attributesOf x)
          \<and> ''__proto__'' \<notin> set (map localName (elementsOf x))
          \<and> ''__proto__'' \<notin> set (map localName (attributesOf x)))"

definition elementNames :: "descriptor option \<Rightarrow> string list" where
  "elementNames d = (case d of None \<Rightarrow> [] | Some x \<Rightarrow> map localName (elementsOf x))"

text \<open>\<^verbatim>\<open>Object.keys(val)\<close>\<close>

definition keysOf :: "(string \<times> json) list \<Rightarrow> string list" where
  "keysOf ps = map fst ps"

text \<open>The place of the last element descriptor of a name, which is the one the table holds.\<close>

definition lastIndex :: "descriptor list \<Rightarrow> string \<Rightarrow> nat option" where
  "lastIndex ds p =
     (if p \<in> set (map localName ds)
      then Some (length ds - 1 - pos (rev (map localName ds)) p) else None)"

fun setElements :: "descriptor \<Rightarrow> descriptor list \<Rightarrow> descriptor" where
  "setElements (ElementDescriptor q t f m n s j es as inh) es' =
     ElementDescriptor q t f m n s j es' as inh"
| "setElements (TypeDescriptor es as) es' = TypeDescriptor es' as"
| "setElements d es' = d"

text \<open>
  A child descriptor is an object that the recursion may write: what it has become is
  put back in its place.
\<close>

definition putElement :: "descriptor option \<Rightarrow> nat \<Rightarrow> descriptor option \<Rightarrow> descriptor option" where
  "putElement d i c =
     (case (d, c) of
        (Some x, Some y) \<Rightarrow> Some (setElements x ((elementsOf x)[i := y]))
      | _ \<Rightarrow> d)"

text \<open>The descriptor made up for a property that no descriptor declares.\<close>

definition adHoc :: "string \<Rightarrow> json \<Rightarrow> descriptor" where
  "adHoc p child =
     ElementDescriptor (QName_parse p) None ''unqualified'' (isVArr child) False False JsAbsent
       [] [] None"

text \<open>
  The element branch up to the point where the branches for a simple element, a scalar
  and a structured value part: the attributes, the element, the scopes and the working
  value.
\<close>

definition openElement ::
  "env \<Rightarrow> nscontext \<Rightarrow> descriptor \<Rightarrow> json \<Rightarrow> error + (json \<times> xml \<times> nscontext \<times> json)" where
  "openElement ev ns d v =
     (case splitValue (e_options ev) v of (attrs, v1) \<Rightarrow>
      case resolveName ev ns d of (elementName, xmlns, ns1) \<Rightarrow>
      bindE (createElement ev d elementName v1) (\<lambda>(el, v2).
      case declareElement ev ns1 d xmlns el v2 of (el1, ns2) \<Rightarrow>
        Inr (attrs, el1, ns2, v2)))"

text \<open>The end of the branch for a simple element.\<close>

definition closeSimple ::
  "env \<Rightarrow> xml \<Rightarrow> descriptor \<Rightarrow> json \<times> xml \<times> nscontext \<times> json
     \<Rightarrow> error + (xml \<times> nscontext \<times> descriptor option)" where
  "closeSimple ev node d st =
     (case st of (attrs, el1, ns2, v2) \<Rightarrow>
      bindE (if attrs \<noteq> VNull then addAttributes ev el1 ns2 (Some d) attrs else Inr (el1, ns2))
        (\<lambda>(el2, ns3). Inr (appendChild node (XChild el2), popContext ns3, Some d)))"

text \<open>The end of the branch for a value that is no object: a scalar or a date.\<close>

definition closeScalar ::
  "env \<Rightarrow> xml \<Rightarrow> descriptor \<Rightarrow> json \<times> xml \<times> nscontext \<times> json
     \<Rightarrow> error + (xml \<times> nscontext \<times> descriptor option)" where
  "closeScalar ev node d1 st =
     (case st of (attrs, el1, ns2, v2) \<Rightarrow>
      bindE (toXmlDateOrTime ev (Some d1) v2) (\<lambda>v3.
      bindE (addText XText el1 v3) (\<lambda>el2.
      bindE (if \<not> vnullish attrs then addAttributes ev el2 ns2 (Some d1) attrs
             else Inr (el2, ns2))
        (\<lambda>(el3, ns3). Inr (appendChild node (XChild el3), popContext ns3, Some d1)))))"

text \<open>\<^verbatim>\<open>descriptor.isMany\<close> with \<^verbatim>\<open>Array.isArray(val)\<close>: the entries to serialize one by one.\<close>

definition manyItems :: "descriptor \<Rightarrow> json \<Rightarrow> json list option" where
  "manyItems d v = (case v of VArr xs \<Rightarrow> if isManyOf (Some d) then Some xs else None | _ \<Rightarrow> None)"

text \<open>The child descriptor \<^verbatim>\<open>elements[p] || attributes[p]\<close>.\<close>

definition elementsOfOpt :: "descriptor option \<Rightarrow> descriptor list" where
  "elementsOfOpt d = (case d of None \<Rightarrow> [] | Some x \<Rightarrow> elementsOf x)"

definition attributesOfOpt :: "descriptor option \<Rightarrow> descriptor list" where
  "attributesOfOpt d = (case d of None \<Rightarrow> [] | Some x \<Rightarrow> attributesOf x)"

definition childDescriptor :: "descriptor option \<Rightarrow> string \<Rightarrow> found" where
  "childDescriptor eff p =
     (case lookupByName (elementsOfOpt eff) p of
        Missing \<Rightarrow> lookupByName (attributesOfOpt eff) p
      | r \<Rightarrow> r)"

text \<open>The descriptor after a child of the name \<open>p\<close> has become \<open>c\<close>.\<close>

definition putChild :: "descriptor option \<Rightarrow> string \<Rightarrow> descriptor option \<Rightarrow> descriptor option" where
  "putChild eff p c =
     (case lastIndex (elementsOfOpt eff) p of
        None \<Rightarrow> eff
      | Some i \<Rightarrow> putElement eff i c)"



text \<open>
  The recursion of \<^verbatim>\<open>jsonToXml\<close> and \<^verbatim>\<open>mapObject\<close> follows the value: an entry of an
  array, a property of an object, the working value of an element. These facts bound
  the size of the value at each call.
\<close>

lemma size_map_of: "map_of ps p = Some (c :: json) \<Longrightarrow> size c < size (VObj ps)"
  by (induction ps) (auto split: if_splits)

lemma size_unstructured: "\<not> isStructured v \<Longrightarrow> size v = 0"
  by (cases v) auto

lemma size_vget: "size (vget v k) \<le> size v"
  by (cases v) (auto simp: vget_def dest: size_map_of split: option.splits)

lemma toXmlDateOrTime_size: "toXmlDateOrTime ev d v = Inr w \<Longrightarrow> size w \<le> size v"
  by (auto simp: toXmlDateOrTime_def toXmlTime_def toXmlDateTime_def afterT_def
           split: option.splits if_splits)

lemma enforce_size: "enforce ev d v = Inr w \<Longrightarrow> size w \<le> size v"
  by (auto simp: enforce_def size_unstructured split: option.splits if_splits)

lemma createElement_size: "createElement ev d n v = Inr (el, w) \<Longrightarrow> size w \<le> size v"
  by (auto simp: createElement_def bindE_def Let_def split: sum.splits if_splits json.splits
           dest!: toXmlDateOrTime_size enforce_size
           intro: order_trans [OF _ size_vget])

lemma openElement_size:
  "openElement ev ns d v = Inr (attrs, el1, ns2, v2) \<Longrightarrow> size v2 \<le> size v"
  by (auto simp: openElement_def splitValue_def bindE_def
           split: prod.splits sum.splits if_splits
           dest!: createElement_size intro: order_trans [OF _ size_vget])

lemma manyItems_size: "manyItems d v = Some xs \<Longrightarrow> size_list size xs < size v"
  by (auto simp: manyItems_def split: json.splits if_splits)


text \<open>
  \<^verbatim>\<open>jsonToXml(node, nsContext, descriptor, val)\<close> and
  \<^verbatim>\<open>mapObject(node, nsContext, descriptor, val, attrs)\<close>, with the loop over the entries
  of an array and the loop over the sorted names. Each returns the node, the scopes and
  the descriptor, which the call may have written (\<open>applyInheritance\<close>).
\<close>

function jsonToXml ::
    "env \<Rightarrow> xml \<Rightarrow> nscontext \<Rightarrow> descriptor option \<Rightarrow> json
       \<Rightarrow> error + (xml \<times> nscontext \<times> descriptor option)"
  and arrayToXml ::
    "env \<Rightarrow> xml \<Rightarrow> nscontext \<Rightarrow> descriptor option \<Rightarrow> json list
       \<Rightarrow> error + (xml \<times> nscontext \<times> descriptor option)"
  and mapObject ::
    "env \<Rightarrow> xml \<Rightarrow> nscontext \<Rightarrow> descriptor option \<Rightarrow> json \<Rightarrow> json
       \<Rightarrow> error + (xml \<times> nscontext \<times> descriptor option)"
  and mapNames ::
    "env \<Rightarrow> xml \<Rightarrow> nscontext \<Rightarrow> descriptor option \<Rightarrow> (string \<times> json) list \<Rightarrow> string list
       \<Rightarrow> error + (xml \<times> nscontext \<times> descriptor option)"
where
  "jsonToXml ev node ns dopt v =
     (case dopt of
        None \<Rightarrow> mapObject ev node ns None v VUndefined
      | Some d \<Rightarrow>
          if isAttributeDescriptor d then
            (case attributeToXml ev node ns d v of
               Inl e \<Rightarrow> Inl e
             | Inr (n1, ns1) \<Rightarrow> Inr (n1, ns1, Some d))
          else if isElementDescriptor d then
            (case manyItems d v of
               Some xs \<Rightarrow> arrayToXml ev node ns (Some d) xs
             | None \<Rightarrow>
                 (case openElement ev ns d v of
                    Inl e \<Rightarrow> Inl e
                  | Inr (attrs, el1, ns2, v2) \<Rightarrow>
                      if isSimple d then closeSimple ev node d (attrs, el1, ns2, v2)
                      else
                        (case applyInheritance (e_options ev) d v2 of
                           Inl e \<Rightarrow> Inl e
                         | Inr d1 \<Rightarrow>
                             if \<not> vnullish v2 \<and> (\<not> typeofObject v2 \<or> isDate v2)
                             then closeScalar ev node d1 (attrs, el1, ns2, v2)
                             else
                               (case mapObject ev el1 ns2 (Some d1) v2 attrs of
                                  Inl e \<Rightarrow> Inl e
                                | Inr (el2, ns3, d2) \<Rightarrow>
                                    Inr (appendChild node (XChild el2), popContext ns3, d2)))))
          else mapObject ev node ns (Some d) v VUndefined)"
| "arrayToXml ev node ns dopt [] = Inr (node, ns, dopt)"
| "arrayToXml ev node ns dopt (x # xs) =
     (case jsonToXml ev node ns dopt x of
        Inl e \<Rightarrow> Inl e
      | Inr (n1, ns1, d1) \<Rightarrow> arrayToXml ev n1 ns1 d1 xs)"
| "mapObject ev node ns dopt v attrs =
     (if vnullish v then Inr (node, ns, dopt)
      else if \<not> typeofObject v \<or> isDate v then
        (case toXmlDateOrTime ev dopt v of
           Inl e \<Rightarrow> Inl e
         | Inr w \<Rightarrow>
             (case addText XText node w of
                Inl e \<Rightarrow> Inl e
              | Inr n1 \<Rightarrow> Inr (n1, ns, dopt)))
      else
        (case getXsiType ev attrs of
           Inl e \<Rightarrow> Inl e
         | Inr xsiType \<Rightarrow>
             (let eff = (case xsiType of Some x \<Rightarrow> Some x | None \<Rightarrow> dopt) in
              if \<not> tablesOK eff then Inl Unmodelled
              else
                (case (case v of
                         VObj ps \<Rightarrow>
                           mapNames ev node ns eff ps (sortKeys (keysOf ps) (elementNames eff))
                       | _ \<Rightarrow> Inr (node, ns, eff)) of
                   Inl e \<Rightarrow> Inl e
                 | Inr (n1, ns1, eff1) \<Rightarrow>
                     (case addAttributes ev n1 ns1 eff1 attrs of
                        Inl e \<Rightarrow> Inl e
                      | Inr (n2, ns2) \<Rightarrow>
                          Inr (n2, ns2, case xsiType of Some x \<Rightarrow> dopt | None \<Rightarrow> eff1))))))"
| "mapNames ev node ns eff ps [] = Inr (node, ns, eff)"
| "mapNames ev node ns eff ps (p # names) =
     (if p = attributesKey (e_options ev) then mapNames ev node ns eff ps names
      else
        (case map_of ps p of
           None \<Rightarrow> mapNames ev node ns eff ps names
         | Some child \<Rightarrow>
             (case childDescriptor eff p of
                Inherited \<Rightarrow> mapNames ev node ns eff ps names
              | Found d \<Rightarrow>
                  (case jsonToXml ev node ns (Some d) child of
                     Inl e \<Rightarrow> Inl e
                   | Inr (n1, ns1, d1) \<Rightarrow> mapNames ev n1 ns1 (putChild eff p d1) ps names)
              | Missing \<Rightarrow>
                  if ignoreUnknownProperties (e_options ev)
                  then mapNames ev node ns eff ps names
                  else
                    (case jsonToXml ev node ns (Some (adHoc p child)) child of
                       Inl e \<Rightarrow> Inl e
                     | Inr (n1, ns1, d1) \<Rightarrow> mapNames ev n1 ns1 eff ps names))))"
  by pat_completeness auto
termination
  apply (relation "measures
     [(\<lambda>x. case x of
          Inl (Inl (ev, node, ns, d, v)) \<Rightarrow> 3 * size v + 2
        | Inl (Inr (ev, node, ns, d, xs)) \<Rightarrow> 3 * size_list size xs + 1
        | Inr (Inl (ev, node, ns, d, v, attrs)) \<Rightarrow> 3 * size v + 1
        | Inr (Inr (ev, node, ns, d, ps, names)) \<Rightarrow> 3 * size (VObj ps)),
      (\<lambda>x. case x of
          Inr (Inr (ev, node, ns, d, ps, names)) \<Rightarrow> length names
        | _ \<Rightarrow> 0)]")
  apply (auto dest!: size_map_of openElement_size manyItems_size)
  done

declare jsonToXml.simps [simp del] mapObject.simps [simp del]


text \<open>
  Modelled from the spec: the tokenizer (the package \<^verbatim>\<open>sax\<close> is not part of the
  sources), in the strict mode \<^verbatim>\<open>xmlToJson\<close> asks for, on the document the tree builder
  renders. An element gives its open tag with its attributes, the events of its
  content and its close tag; text gives one text event for a run of adjacent text
  nodes and none when it is empty; a CDATA section gives a cdata event. Raw content is
  text the tokenizer reads as markup, and a CDATA section with \<^verbatim>\<open>]]>\<close> in it is
  rendered as several sections: both are outside the embedding. The names of elements
  and attributes are taken to be XML names.
\<close>

fun collect :: "('e + 'a list) list \<Rightarrow> 'e + 'a list" where
  "collect [] = Inr []"
| "collect (r # rs) = bindE r (\<lambda>xs. bindE (collect rs) (\<lambda>ys. Inr (xs @ ys)))"

fun joinText :: "event list \<Rightarrow> event list" where
  "joinText (Text s # Text t # es) = joinText (Text (s @ t) # es)"
| "joinText (e # es) = e # joinText es"
| "joinText [] = []"

fun tokens :: "xml \<Rightarrow> error + event list"
  and childTokens :: "xchild \<Rightarrow> error + event list" where
  "tokens (XElem n as cs) =
     bindE (collect (map childTokens cs)) (\<lambda>es. Inr (OpenTag n as # joinText es @ [CloseTag n]))"
| "childTokens (XChild x) = tokens x"
| "childTokens (XText s) = Inr (if s = [] then [] else [Text s])"
| "childTokens (XCData s) = (if sublist '']]>'' s then Inl Unmodelled else Inr [CData s])"
| "childTokens (XRaw s) = Inl Unmodelled"

text \<open>
  The white space of the tokenizer, and the events with text that is not white space.
\<close>

definition isSaxSpace :: "char \<Rightarrow> bool" where
  "isSaxSpace c = (of_char c \<in> set [32, 10, 13, 9 :: int])"

fun isText :: "event \<Rightarrow> bool" where
  "isText (Text t) = (\<not> list_all isSaxSpace t)"
| "isText e = False"

fun isElem :: "xchild \<Rightarrow> bool" where
  "isElem (XChild x) = True"
| "isElem c = False"

text \<open>
  The events of what a call of \<^verbatim>\<open>jsonToXml\<close> has put under the document node. The
  strict tokenizer accepts text that is not white space only inside the first element
  of the document: before it (\<open>Non-whitespace before first tag\<close>) and once it is
  closed (\<open>Text data outside of root node\<close>), also inside a later element, it records
  an error, hands the rest of the events to the handlers, and throws the error when
  the document is closed.
\<close>

definition documentTokens :: "xml \<Rightarrow> error + event list" where
  "documentTokens doc =
     (let cs = x_children doc;
          outside = takeWhile (\<lambda>c. \<not> isElem c) cs @ drop 1 (dropWhile (\<lambda>c. \<not> isElem c) cs)
      in bindE (collect (map childTokens cs)) (\<lambda>es.
         bindE (collect (map childTokens outside)) (\<lambda>out.
         Inr (joinText es @ (if list_ex isText out then [Malformed] else [])))))"

text \<open>An environment with the default options and no schemas.\<close>

definition plainEnv :: env where
  "plainEnv =
     \<lparr>e_options = defaultOptions, e_restriction = (\<lambda>d. None), e_describe = (\<lambda>q. None),
      e_toISOString = (\<lambda>v. None), e_generatePrefix = (\<lambda>ns. ''ns1'')\<rparr>"

text \<open>The key the comparison function of \<^verbatim>\<open>_sortKeys\<close> orders the names by.\<close>

definition keyOf :: "string list \<Rightarrow> string list \<Rightarrow> string \<Rightarrow> nat \<times> nat" where
  "keyOf keys order k = (pos order k, pos keys k)"


text \<open>
  A value serialized under a descriptor and read back under the same descriptor, as a
  tree to a depth: \<^verbatim>\<open>xmlToJson\<close> on the events of the document that \<^verbatim>\<open>jsonToXml\<close>
  builds under a new document node, in new namespace scopes. The descriptor is one
  object: the deserializer sees what the serializer has made of it.
\<close>

definition roundTrip ::
  "nat \<Rightarrow> env \<Rightarrow> (heap \<Rightarrow> jsval \<Rightarrow> string) \<Rightarrow> descriptor option \<Rightarrow> json \<Rightarrow> error + json" where
  "roundTrip n ev stringify d v =
     (case jsonToXml ev (XElem [] [] []) [] d v of
        Inl e \<Rightarrow> Inl e
      | Inr (doc, ns, d') \<Rightarrow>
          (case documentTokens doc of
             Inl e \<Rightarrow> Inl e
           | Inr xml \<Rightarrow> resultTree n (xmlToJson (e_options ev) stringify [] xml d')))"


text \<open>The document a call of the serializer has built.\<close>

definition documentAfter :: "error + (xml \<times> nscontext \<times> descriptor option) \<Rightarrow> error + xml" where
  "documentAfter r = (case r of Inl e \<Rightarrow> Inl e | Inr (n, ns, d) \<Rightarrow> Inr n)"






section \<open>Vocabulary of the claims\<close>

text \<open>
  An attribute name is \<^verbatim>\<open>xsi:type\<close> in the scopes \<open>ns\<close> when it is no namespace
  declaration, its prefix resolves to the XML-Schema-Instance namespace and its local
  name is \<open>type\<close>. The value recorded for a regular attribute: the two-field marker
  \<^verbatim>\<open>{type, xmlns}\<close> for \<^verbatim>\<open>xsi:type\<close>, the text of any other attribute as it is.
\<close>

definition isTypeAttr :: "nscontext \<Rightarrow> string \<Rightarrow> bool" where
  "isTypeAttr ns a =
     (\<not> isXmlns a \<and> getNamespaceURI ns (prefix (QName_parse a)) = Some xsi
      \<and> name (QName_parse a) = ''type'')"

definition attrValue :: "nscontext \<Rightarrow> string \<times> string \<Rightarrow> json" where
  "attrValue ns av =
     (if isTypeAttr ns (fst av)
      then VObj [(''type'', VStr (name (QName_parse (snd av)))),
                 (''xmlns'',
                  if prefix (QName_parse (snd av)) \<noteq> []
                  then (case getNamespaceURI ns (prefix (QName_parse (snd av))) of
                          Some u \<Rightarrow> VStr u | None \<Rightarrow> VNull)
                  else VNull)]
      else VStr (snd av))"

text \<open>
  The attribute map of an element as a tree: every regular attribute written under its
  key, one after the other, but for the key \<^verbatim>\<open>__proto__\<close>, whose setter drops a text.
\<close>

abbreviation attrWrite ::
  "options \<Rightarrow> nscontext \<Rightarrow> string \<times> string \<Rightarrow> (string \<times> json) list \<Rightarrow> (string \<times> json) list" where
  "attrWrite opts ns \<equiv>
     (\<lambda>av m. if isRegularAttr ns (fst av) \<and> attrKey opts ns (fst av) \<noteq> ''__proto__''
              then put m (attrKey opts ns (fst av)) (attrValue ns av) else m)"

definition attrMap :: "options \<Rightarrow> nscontext \<Rightarrow> (string \<times> string) list \<Rightarrow> (string \<times> json) list" where
  "attrMap opts ns attrs = fold (attrWrite opts ns) attrs []"

text \<open>
  A configured key \<^verbatim>\<open>__proto__\<close> would make the handler replace the prototype of a map
  it builds, which is outside the embedding: the attributes-key when there is a regular
  attribute, the xsi-type key when there is an \<^verbatim>\<open>xsi:type\<close>.
\<close>

definition protoClash :: "options \<Rightarrow> nscontext \<Rightarrow> (string \<times> string) list \<Rightarrow> bool" where
  "protoClash opts ns attrs =
     (((\<exists>av\<in>set attrs. isRegularAttr ns (fst av)) \<and> attributesKey opts = ''__proto__'')
      \<or> ((\<exists>av\<in>set attrs. isTypeAttr ns (fst av)) \<and> xsiTypeKey opts = ''__proto__''))"

text \<open>
  An \<^verbatim>\<open>href\<close> whose id names a member the registry inherits and does not own:
  \<^verbatim>\<open>refs[id]\<close> is that member, and \<^verbatim>\<open>refs[id].hrefs.push\<close> throws.
\<close>

definition hrefMiss :: "(string \<times> refent) list \<Rightarrow> (string \<times> string) list \<Rightarrow> bool" where
  "hrefMiss refs attrs =
     (case map_of attrs ''href'' of
        None \<Rightarrow> False
      | Some v \<Rightarrow> \<not> hasOwn refs (drop 1 v) \<and> drop 1 v \<in> set objectPrototype)"

text \<open>The objects of the frames of a call, the top frame first.\<close>

definition frameObjects :: "error + pstate \<Rightarrow> error + jsval list" where
  "frameObjects r = (case r of Inl e \<Rightarrow> Inl e | Inr s \<Rightarrow> Inr (map f_object (p_stack s)))"

text \<open>
  The attribute map during the loop: once it exists it is a cell \<open>e\<close> of the store, made
  since the store had \<open>l0\<close> cells, and its properties \<open>ps\<close> are texts and markers in
  cells of their own.
\<close>

definition amapInv :: "nat \<Rightarrow> addr option \<Rightarrow> heap \<Rightarrow> (string \<times> jsval) list \<Rightarrow> bool" where
  "amapInv l0 ea h ps =
     (l0 \<le> length h \<and> amapOK ea h ps
      \<and> (\<forall>e. ea = Some e \<longrightarrow> l0 \<le> e)
      \<and> (\<forall>w\<in>set (map snd ps). \<forall>y. w = JRef y \<longrightarrow> y < length h \<and> ea \<noteq> Some y))"

text \<open>The properties of a cell as trees.\<close>

definition treeOf :: "heap \<Rightarrow> (string \<times> jsval) list \<Rightarrow> (string \<times> json) list" where
  "treeOf h ps = map (\<lambda>p. (fst p, reify 1 h (snd p))) ps"

text \<open>
  One round of the loop of \<^verbatim>\<open>mapObject\<close> over the sorted names, for the name \<open>p\<close>:
  the attributes-key is skipped; the child descriptor is looked up among the elements,
  then the attributes; a property no descriptor declares is skipped when unknown
  properties are ignored and serialized under a descriptor made up for it otherwise.
  The state is the node, the scopes and the descriptor in force.
\<close>

definition mapProperty ::
  "env \<Rightarrow> (string \<times> json) list \<Rightarrow> string \<Rightarrow> xml \<times> nscontext \<times> descriptor option
     \<Rightarrow> error + (xml \<times> nscontext \<times> descriptor option)" where
  "mapProperty ev ps p st =
     (case st of (node, ns, eff) \<Rightarrow>
      if p = attributesKey (e_options ev) then Inr st
      else
        (case map_of ps p of
           None \<Rightarrow> Inr st
         | Some child \<Rightarrow>
             (case childDescriptor eff p of
                Inherited \<Rightarrow> Inr st
              | Found d \<Rightarrow>
                  (case jsonToXml ev node ns (Some d) child of
                     Inl e \<Rightarrow> Inl e
                   | Inr (n1, ns1, d1) \<Rightarrow> Inr (n1, ns1, putChild eff p d1))
              | Missing \<Rightarrow>
                  if ignoreUnknownProperties (e_options ev) then Inr st
                  else
                    (case jsonToXml ev node ns (Some (adHoc p child)) child of
                       Inl e \<Rightarrow> Inl e
                     | Inr (n1, ns1, d1) \<Rightarrow> Inr (n1, ns1, eff)))))"

text \<open>
  The properties mapped one after the other in the order of a list of names, a failure
  ending the call.
\<close>

definition mapInOrder ::
  "env \<Rightarrow> (string \<times> json) list \<Rightarrow> string list \<Rightarrow> xml \<times> nscontext \<times> descriptor option
     \<Rightarrow> error + (xml \<times> nscontext \<times> descriptor option)" where
  "mapInOrder ev ps names st = foldl (\<lambda>r p. bindE r (mapProperty ev ps p)) (Inr st) names"

text \<open>
  The object a caller builds by writing properties one after the other, which is also
  the object of a literal with these properties in this order.
\<close>

definition objectOf :: "(string \<times> 'v) list \<Rightarrow> (string \<times> 'v) list" where
  "objectOf kvs = foldl (\<lambda>ps kv. put ps (fst kv) (snd kv)) [] kvs"

text \<open>
  The scopes of an element in the serializer, once its own name is resolved; and the
  scopes of an element in the deserializer, its namespace declarations registered.
\<close>

definition elementScopes :: "env \<Rightarrow> nscontext \<Rightarrow> descriptor \<Rightarrow> nscontext" where
  "elementScopes ev ns d = snd (snd (resolveName ev ns d))"

definition parserScopes :: "pstate \<Rightarrow> (string \<times> string) list \<Rightarrow> nscontext" where
  "parserScopes s attrs = registerNamespaces (pushContext (p_ns s)) attrs"



text \<open>
  The descriptors of the frames of a deserialize call are selected from the descriptor
  \<open>d0\<close> the call was given: the root frame, the last of the stack, holds \<open>d0\<close>, and every
  other frame holds what \<^verbatim>\<open>findElement\<close> gives for its name on the descriptor of the
  frame below it, or none where that frame has none.
\<close>

definition selectedFor :: "frame \<Rightarrow> frame \<Rightarrow> descriptor option" where
  "selectedFor parent child =
     (case f_descriptor parent of
        None \<Rightarrow> None
      | Some d \<Rightarrow> (case f_name child of None \<Rightarrow> None | Some n \<Rightarrow> findElement d n))"

fun selected :: "descriptor option \<Rightarrow> frame list \<Rightarrow> bool" where
  "selected d0 [] = False"
| "selected d0 [r] = (f_descriptor r = d0)"
| "selected d0 (f # g # fs) = (f_descriptor f = selectedFor g f \<and> selected d0 (g # fs))"


chapter \<open>Properties\<close>

section \<open>Coercion of text\<close>

text \<open>
  Claim C8. For every text and declared type, \<^verbatim>\<open>parseValue\<close> returns: under the
  type date, a text of 10 characters unchanged and any other text as the date value
  built from it; under the type boolean, true for the texts \<open>true\<close> and \<open>1\<close> and
  false for every other text; under any other conversion function, that function
  applied to the text; with no declared type (no descriptor, or a descriptor with no
  conversion function), the text unchanged.
\<close>

theorem parseValue_coerce:
  "(jsTypeOf d = JsDate \<longrightarrow>
      parseValue (JStr t) d = (if length t = 10 then JStr t else JDate t))
   \<and> (jsTypeOf d = JsBoolean \<longrightarrow>
      parseValue (JStr t) d = JBool (t = ''true'' \<or> t = ''1''))
   \<and> (jsTypeOf d = JsFunction f \<longrightarrow> parseValue (JStr t) d = f t)
   \<and> (jsTypeOf d = JsAbsent \<longrightarrow> parseValue (JStr t) d = JStr t)"
  by simp

theorem parseValue_coerce_witness:
  "parseValue (JStr ''2020-02-03'')
      (Some (AttributeDescriptor \<lparr>nsURI = [], name = ''d'', prefix = []\<rparr> None [] JsDate))
     = JStr ''2020-02-03''
   \<and> parseValue (JStr ''2020-02-03T10:00:00'')
      (Some (AttributeDescriptor \<lparr>nsURI = [], name = ''d'', prefix = []\<rparr> None [] JsDate))
     = JDate ''2020-02-03T10:00:00''
   \<and> parseValue (JStr ''1'')
      (Some (AttributeDescriptor \<lparr>nsURI = [], name = ''b'', prefix = []\<rparr> None [] JsBoolean))
     = JBool True
   \<and> parseValue (JStr ''yes'')
      (Some (AttributeDescriptor \<lparr>nsURI = [], name = ''b'', prefix = []\<rparr> None [] JsBoolean))
     = JBool False
   \<and> parseValue (JStr ''abc'')
      (Some (AttributeDescriptor \<lparr>nsURI = [], name = ''r'', prefix = []\<rparr> None []
         (JsFunction (\<lambda>s. JStr (rev s)))))
     = JStr ''cba''
   \<and> parseValue (JStr ''abc'') None = JStr ''abc''"
  using
    parseValue_coerce [of "Some (AttributeDescriptor \<lparr>nsURI = [], name = ''d'', prefix = []\<rparr> None [] JsDate)"
      "''2020-02-03''"]
    parseValue_coerce [of "Some (AttributeDescriptor \<lparr>nsURI = [], name = ''d'', prefix = []\<rparr> None [] JsDate)"
      "''2020-02-03T10:00:00''"]
    parseValue_coerce [of "Some (AttributeDescriptor \<lparr>nsURI = [], name = ''b'', prefix = []\<rparr> None [] JsBoolean)"
      "''1''"]
    parseValue_coerce [of "Some (AttributeDescriptor \<lparr>nsURI = [], name = ''b'', prefix = []\<rparr> None [] JsBoolean)"
      "''yes''"]
    parseValue_coerce [of "Some (AttributeDescriptor \<lparr>nsURI = [], name = ''r'', prefix = []\<rparr> None []
         (JsFunction (\<lambda>s. JStr (rev s))))" "''abc''" "\<lambda>s. JStr (rev s)"]
    parseValue_coerce [of None "''abc''"]
  by simp

section \<open>Own properties\<close>

lemma map_of_insertIndex:
  "map_of ps k = None \<Longrightarrow>
   map_of (insertIndex n k v ps) k' = (if k' = k then Some v else map_of ps k')"
  by (induction ps) (auto split: option.splits if_splits)

lemma map_of_replace:
  "map_of (map (\<lambda>p. if fst p = k then (k, v) else p) ps) k' =
     (if k' = k then map_option (\<lambda>_. v) (map_of ps k) else map_of ps k')"
  by (induction ps) auto

lemma map_of_put:
  "map_of (put ps k v) k' = (if k' = k then Some v else map_of ps k')"
  by (auto simp: put_def hasOwn_def map_of_insertIndex map_of_replace map_add_def
           split: option.splits)

lemma hasOwn_put: "hasOwn (put ps k v) k' = (k' = k \<or> hasOwn ps k')"
  by (simp add: hasOwn_def map_of_put)

lemma getProp_put: "getProp (put ps k v) k' = (if k' = k then v else getProp ps k')"
  by (simp add: getProp_def map_of_put)

lemma put_new: "\<not> hasOwn ps k \<Longrightarrow> arrayIndex k = None \<Longrightarrow> put ps k v = ps @ [(k, v)]"
  by (simp add: put_def)

lemma put_empty: "put [] k v = [(k, v)]"
  by (simp add: put_def hasOwn_def split: option.splits)

section \<open>The end of a deserialize call\<close>








section \<open>Close tag: the merge into the parent\<close>

lemma mergeChild_object:
  assumes "a < length h" "h ! a = HObj ps" "n \<noteq> ''__proto__''"
  shows "mergeChild h (JRef a) n cur =
     (if js_in ps n then
        (if isArray h (getProp ps n) then Inr (arrayPush h (getProp ps n) (f_object cur))
         else Inr ((h @ [HArr [getProp ps n, f_object cur]])
                     [a := HObj (put ps n (JRef (length h)))]))
      else if isManyOf (f_descriptor cur)
      then Inr ((h @ [HArr [f_object cur]])[a := HObj (put ps n (JRef (length h)))])
      else Inr (h[a := HObj (put ps n (f_object cur))]))"
  using assms
  by (simp add: mergeChild_def Let_def alloc_def setProp_def nth_append)

lemma mergeChild_own:
  assumes "a < length h" "h ! a = HObj ps" "n \<notin> set objectPrototype"
  shows "mergeChild h (JRef a) n cur =
     (case map_of ps n of
        None \<Rightarrow>
          if isManyOf (f_descriptor cur)
          then Inr ((h @ [HArr [f_object cur]])[a := HObj (put ps n (JRef (length h)))])
          else Inr (h[a := HObj (put ps n (f_object cur))])
      | Some w \<Rightarrow>
          if isArray h w then Inr (arrayPush h w (f_object cur))
          else Inr ((h @ [HArr [w, f_object cur]])[a := HObj (put ps n (JRef (length h)))]))"
proof -
  from assms(3) have "n \<noteq> ''__proto__''" by (auto simp: objectPrototype_def)
  from mergeChild_object [OF assms(1,2) this, of cur] assms(3) show ?thesis
    by (simp add: js_in_def hasOwn_def getProp_def split: option.splits)
qed

lemma onclosetag_object:
  assumes "p_stack s = cur # topf # below" "f_object topf = JRef a"
      and "a < length (p_heap s)" "p_heap s ! a = HObj ps"
      and "name (QName_parse nsName) = n" "n \<noteq> ''__proto__''" "f_id cur = None"
  shows "onclosetag opts s nsName =
     bindE (mergeChild (p_heap s) (JRef a) n cur) (\<lambda>h.
       Inr \<lparr>p_heap = h, p_stack = topf # below, p_refs = p_refs s, p_ns = popContext (p_ns s)\<rparr>)"
  using assms
  by (simp add: onclosetag_def Let_def bindE_def split: sum.splits)

lemma onclosetag_null_parent:
  assumes "p_stack s = cur # topf # below" "f_object topf = JNull"
  shows "onclosetag opts s nsName =
     bindE (case f_id cur of None \<Rightarrow> Inr (p_refs s)
            | Some i \<Rightarrow> resolveRef (p_refs s) i (f_object cur)) (\<lambda>refs1.
       Inr \<lparr>p_heap = p_heap s, p_stack = topf # below, p_refs = refs1,
            p_ns = popContext (p_ns s)\<rparr>)"
  using assms
  by (simp add: onclosetag_def Let_def bindE_def split: sum.splits)

text \<open>
  Claim C7, as amended. When a frame is popped while the object of the new top frame,
  its parent, is \<^verbatim>\<open>null\<close> (the parent was nulled by \<^verbatim>\<open>xsi:nil="true"\<close>), the close-tag
  handling merges nothing: the store is as before, and the call returns whenever the
  popped frame has no id. A popped frame whose own object is \<^verbatim>\<open>null\<close> is merged like
  any other: a parent object that does not hold the key gets it, with the value
  \<^verbatim>\<open>null\<close>, or the array \<^verbatim>\<open>[null]\<close> when the matching descriptor is repeatable.
\<close>

theorem onclosetag_null:
  assumes "p_stack s = cur # topf # below"
  shows "(f_object topf = JNull \<and> onclosetag opts s nsName = Inr s' \<longrightarrow>
            p_heap s' = p_heap s \<and> p_stack s' = topf # below)
       \<and> (f_object topf = JNull \<and> f_id cur = None \<longrightarrow>
            onclosetag opts s nsName
              = Inr (s\<lparr>p_stack := topf # below, p_ns := popContext (p_ns s)\<rparr>))
       \<and> (f_object cur = JNull \<and> f_object topf = JRef a \<and> a < length (p_heap s)
            \<and> p_heap s ! a = HObj ps \<and> \<not> js_in ps (name (QName_parse nsName))
            \<and> f_id cur = None \<longrightarrow>
            onclosetag opts s nsName
              = Inr (s\<lparr>p_heap :=
                         (if isManyOf (f_descriptor cur)
                          then (p_heap s @ [HArr [JNull]])
                                 [a := HObj (put ps (name (QName_parse nsName))
                                               (JRef (length (p_heap s))))]
                          else (p_heap s)[a := HObj (put ps (name (QName_parse nsName)) JNull)]),
                       p_stack := topf # below, p_ns := popContext (p_ns s)\<rparr>))"
proof -
  have c1: "f_object topf = JNull \<and> onclosetag opts s nsName = Inr s' \<longrightarrow>
            p_heap s' = p_heap s \<and> p_stack s' = topf # below"
    using onclosetag_null_parent [OF assms, of opts nsName]
    by (auto simp: bindE_def split: sum.splits)
  have c2: "f_object topf = JNull \<and> f_id cur = None \<longrightarrow>
            onclosetag opts s nsName
              = Inr (s\<lparr>p_stack := topf # below, p_ns := popContext (p_ns s)\<rparr>)"
    using onclosetag_null_parent [OF assms, of opts nsName]
    by (simp add: bindE_def)
  have c3: "f_object cur = JNull \<and> f_object topf = JRef a \<and> a < length (p_heap s)
            \<and> p_heap s ! a = HObj ps \<and> \<not> js_in ps (name (QName_parse nsName))
            \<and> f_id cur = None \<longrightarrow>
            onclosetag opts s nsName
              = Inr (s\<lparr>p_heap :=
                         (if isManyOf (f_descriptor cur)
                          then (p_heap s @ [HArr [JNull]])
                                 [a := HObj (put ps (name (QName_parse nsName))
                                               (JRef (length (p_heap s))))]
                          else (p_heap s)[a := HObj (put ps (name (QName_parse nsName)) JNull)]),
                       p_stack := topf # below, p_ns := popContext (p_ns s)\<rparr>)"
  proof
    assume h: "f_object cur = JNull \<and> f_object topf = JRef a \<and> a < length (p_heap s)
            \<and> p_heap s ! a = HObj ps \<and> \<not> js_in ps (name (QName_parse nsName))
            \<and> f_id cur = None"
    then have np: "name (QName_parse nsName) \<noteq> ''__proto__''"
      by (auto simp: js_in_def objectPrototype_def)
    from h have o: "onclosetag opts s nsName =
       bindE (mergeChild (p_heap s) (JRef a) (name (QName_parse nsName)) cur) (\<lambda>h.
         Inr \<lparr>p_heap = h, p_stack = topf # below, p_refs = p_refs s,
              p_ns = popContext (p_ns s)\<rparr>)"
      using onclosetag_object [OF assms, of a ps nsName "name (QName_parse nsName)" opts] np
      by simp
    from h np show "onclosetag opts s nsName
              = Inr (s\<lparr>p_heap :=
                         (if isManyOf (f_descriptor cur)
                          then (p_heap s @ [HArr [JNull]])
                                 [a := HObj (put ps (name (QName_parse nsName))
                                               (JRef (length (p_heap s))))]
                          else (p_heap s)[a := HObj (put ps (name (QName_parse nsName)) JNull)]),
                       p_stack := topf # below, p_ns := popContext (p_ns s)\<rparr>)"
      unfolding o by (simp add: mergeChild_object bindE_def)
  qed
  from c1 c2 c3 show ?thesis by blast
qed

theorem onclosetag_null_witness:
  "onclosetag defaultOptions
     \<lparr>p_heap = [HObj []],
      p_stack = [\<lparr>f_name = Some ''c'', f_object = JStr ''t'', f_descriptor = None, f_id = None\<rparr>,
                 \<lparr>f_name = Some ''p'', f_object = JNull, f_descriptor = None, f_id = None\<rparr>,
                 \<lparr>f_name = None, f_object = JRef 0, f_descriptor = None, f_id = None\<rparr>],
      p_refs = [], p_ns = [[], []]\<rparr> ''c''
   = Inr \<lparr>p_heap = [HObj []],
      p_stack = [\<lparr>f_name = Some ''p'', f_object = JNull, f_descriptor = None, f_id = None\<rparr>,
                 \<lparr>f_name = None, f_object = JRef 0, f_descriptor = None, f_id = None\<rparr>],
      p_refs = [], p_ns = [[]]\<rparr>
   \<and> onclosetag defaultOptions
     \<lparr>p_heap = [HObj []],
      p_stack = [\<lparr>f_name = Some ''a'', f_object = JNull, f_descriptor = None, f_id = None\<rparr>,
                 \<lparr>f_name = None, f_object = JRef 0, f_descriptor = None, f_id = None\<rparr>],
      p_refs = [], p_ns = [[]]\<rparr> ''a''
   = Inr \<lparr>p_heap = [HObj [(''a'', JNull)]],
      p_stack = [\<lparr>f_name = None, f_object = JRef 0, f_descriptor = None, f_id = None\<rparr>],
      p_refs = [], p_ns = []\<rparr>"
proof -
  let ?root = "\<lparr>f_name = None, f_object = JRef 0, f_descriptor = None, f_id = None\<rparr>"
  let ?c = "\<lparr>f_name = Some ''c'', f_object = JStr ''t'', f_descriptor = None, f_id = None\<rparr>"
  let ?p = "\<lparr>f_name = Some ''p'', f_object = JNull, f_descriptor = None, f_id = None\<rparr>"
  let ?a = "\<lparr>f_name = Some ''a'', f_object = JNull, f_descriptor = None, f_id = None\<rparr>"
  let ?s1 = "\<lparr>p_heap = [HObj []], p_stack = [?c, ?p, ?root], p_refs = [], p_ns = [[], []]\<rparr>"
  let ?s2 = "\<lparr>p_heap = [HObj []], p_stack = [?a, ?root], p_refs = [], p_ns = [[]]\<rparr>"
  have n: "name (QName_parse ''a'') = ''a''" "\<not> js_in [] ''a''"
    by code_simp+
  have "p_stack ?s1 = ?c # ?p # [?root]" by simp
  from onclosetag_null [OF this, where opts = defaultOptions and nsName = "''c''"]
  have 1: "onclosetag defaultOptions ?s1 ''c''
             = Inr \<lparr>p_heap = [HObj []], p_stack = [?p, ?root], p_refs = [], p_ns = [[]]\<rparr>"
    by (simp add: popContext_def)
  have "p_stack ?s2 = ?a # ?root # []" by simp
  from onclosetag_null [OF this, where a = 0 and ps = "[]" and nsName = "''a''"
      and opts = defaultOptions] n
  have 2: "onclosetag defaultOptions ?s2 ''a''
             = Inr \<lparr>p_heap = [HObj [(''a'', JNull)]], p_stack = [?root], p_refs = [],
                    p_ns = []\<rparr>"
    by (simp add: popContext_def put_empty)
  from 1 2 show ?thesis by blast
qed

text \<open>
  Claim C7 as stated fails: in \<^verbatim>\<open><p k="v"><a xsi:nil="true"/></p>\<close> the frame of
  \<^verbatim>\<open>a\<close> holds \<^verbatim>\<open>null\<close> when it is popped, and the object of \<^verbatim>\<open>p\<close> gets the key
  \<^verbatim>\<open>a\<close>.
\<close>

theorem onclosetag_null_counterexample:
  "runTrees 3 defaultOptions [] None
     [OpenTag ''p'' [(''k'', ''v'')],
      OpenTag ''a'' [(''xmlns:xsi'', xsi), (''xsi:nil'', ''true'')]]
     = Inr [VNull, VObj [(''$attributes'', VObj [(''k'', VStr ''v'')])], VObj []]
   \<and> runTrees 3 defaultOptions [] None
     [OpenTag ''p'' [(''k'', ''v'')],
      OpenTag ''a'' [(''xmlns:xsi'', xsi), (''xsi:nil'', ''true'')],
      CloseTag ''a'']
     = Inr [VObj [(''$attributes'', VObj [(''k'', VStr ''v'')]), (''a'', VNull)], VObj []]"
  by code_simp

text \<open>
  Claim C2 says that a value whose key is absent in the parent is stored directly (as
  a one-element array for a repeatable element), and \<open>mergeChild_own\<close> shows it for
  every name that \<^verbatim>\<open>Object.prototype\<close> does not have. The source tests the key with
  \<^verbatim>\<open>in\<close>, which also finds inherited members: in
  \<^verbatim>\<open><p><constructor>1</constructor></p>\<close> the object of \<^verbatim>\<open>p\<close> has no property
  \<^verbatim>\<open>constructor\<close> of its own, and the value is stored as the second element of an array
  whose first element is the inherited member.
\<close>

theorem close_tag_inherited_name:
  "resultTree 3 (xmlToJson defaultOptions (\<lambda>h v. []) []
     [OpenTag ''p'' [], OpenTag ''constructor'' [], Text ''1'', CloseTag ''constructor'',
      CloseTag ''p''] None)
   = Inr (VObj [(''p'', VObj [(''constructor'', VArr [VBuiltin ''constructor'', VStr ''1''])])])"
  by code_simp

text \<open>
  The array promotion of claim C2: \<^verbatim>\<open><p><x>1</x><x>2</x></p>\<close> with no descriptor.
\<close>

lemma array_promotion_example:
  "resultTree 3 (xmlToJson defaultOptions (\<lambda>h v. []) []
     [OpenTag ''p'' [], OpenTag ''x'' [], Text ''1'', CloseTag ''x'',
      OpenTag ''x'' [], Text ''2'', CloseTag ''x'', CloseTag ''p''] None)
   = Inr (VObj [(''p'', VObj [(''x'', VArr [VStr ''1'', VStr ''2''])])])"
  by code_simp


section \<open>Multiref: the merge sites\<close>








lemma sitesOf_put:
  "sitesOf (put refs i ent) j = (if j = i then hrefs ent else sitesOf refs j)"
  by (simp add: sitesOf_def map_of_put)





lemma onclosetag_sites:
  "onclosetag opts s nsName = Inr s' \<Longrightarrow> sitesOf (p_refs s') j = sitesOf (p_refs s) j"
  by (auto simp: onclosetag_def Let_def bindE_def resolveRef_def sitesOf_put
           split: list.splits sum.splits option.splits if_splits prod.splits)
     (simp_all add: sitesOf_def)

lemma ontext_sites:
  "ontext opts s t = Inr s' \<Longrightarrow> p_refs s' = p_refs s"
  by (auto simp: ontext_def Let_def bindE_def split: list.splits sum.splits if_splits)





section \<open>Open tag: the object of the new frame\<close>

lemma attr_kinds: "isXmlns a \<or> isNilAttr ns a \<or> isRegularAttr ns a"
  by (auto simp: isRegularAttr_def)

lemma attr_kinds_excl:
  "isXmlns a \<Longrightarrow> \<not> isNilAttr ns a \<and> \<not> isRegularAttr ns a"
  "isNilAttr ns a \<Longrightarrow> \<not> isRegularAttr ns a"
  "isTypeAttr ns a \<Longrightarrow> isRegularAttr ns a"
  by (auto simp: isRegularAttr_def isNilAttr_def isTypeAttr_def)

lemma attrStep_xmlns:
  "isXmlns a \<Longrightarrow> attrStep opts ns (a, v) st = Inr st"
  by (cases st) (simp add: attrStep_def)

lemma attrStep_nil:
  "isNilAttr ns a \<Longrightarrow>
   attrStep opts ns (a, v) (obj, ea, h) = Inr (if v = ''true'' then JNull else obj, ea, h)"
  by (simp add: attrStep_def isNilAttr_def Let_def)

lemma put_map: "put (map (\<lambda>p. (fst p, f (snd p))) ps) k (f w) = map (\<lambda>p. (fst p, f (snd p))) (put ps k w)"
proof -
  have i: "insertIndex n k (f w) (map (\<lambda>p. (fst p, f (snd p))) qs)
             = map (\<lambda>p. (fst p, f (snd p))) (insertIndex n k w qs)" for n qs
    by (induction qs) (auto split: option.splits)
  have h: "hasOwn (map (\<lambda>p. (fst p, f (snd p))) ps) k = hasOwn ps k"
    by (induction ps) (auto simp: hasOwn_def)
  show ?thesis
    by (auto simp: put_def h i split: option.splits)
qed

lemma reify0: "reify 0 h' w = reify 0 h w"
  by (cases w) simp_all

lemma reify1_frame:
  "y < length h \<Longrightarrow> y < length h' \<Longrightarrow> h' ! y = h ! y \<Longrightarrow> reify 1 h' (JRef y) = reify 1 h (JRef y)"
  using reify0 [of h' _ h] by (simp split: hobj.splits)

lemma treeOf_frame:
  assumes "\<forall>w\<in>set (map snd ps). \<forall>y. w = JRef y \<longrightarrow> y < length h \<and> y < length h' \<and> h' ! y = h ! y"
  shows "treeOf h' ps = treeOf h ps"
  unfolding treeOf_def
proof (rule map_cong [OF refl])
  fix p assume p: "p \<in> set ps"
  show "(fst p, reify 1 h' (snd p)) = (fst p, reify 1 h (snd p))"
  proof (cases "snd p")
    case (JRef y)
    from p have "snd p \<in> set (map snd ps)" by simp
    with assms JRef have y: "y < length h" "y < length h'" "h' ! y = h ! y" by blast+
    have "reify 1 h' (JRef y) = reify 1 h (JRef y)" by (rule reify1_frame [OF y])
    then show ?thesis by (simp only: JRef)
  qed simp_all
qed

lemma set_insertIndex: "set (insertIndex n k v qs) = insert (k, v) (set qs)"
  by (induction qs) (auto split: option.splits if_splits)

lemma set_put: "set (map snd (put ps k v)) \<subseteq> insert v (set (map snd ps))"
  by (auto simp: put_def set_insertIndex split: option.splits if_splits)

lemma refs_put:
  assumes "\<forall>w\<in>set (map snd ps). \<forall>y. w = JRef y \<longrightarrow> P y" "\<forall>y. v = JRef y \<longrightarrow> P y"
  shows "\<forall>w\<in>set (map snd (put ps k v)). \<forall>y. w = JRef y \<longrightarrow> P y"
  using assms set_put [of ps k v] by blast

lemma attrStep_plain:
  assumes "\<not> isXmlns a" "\<not> isNilAttr ns a" "\<not> isTypeAttr ns a"
  shows "attrStep opts ns (a, v) (obj, ea, h)
     = (case (case ea of Some e \<Rightarrow> (h, e) | None \<Rightarrow> alloc h (HObj [])) of
          (h1, e) \<Rightarrow> bindE (setProp h1 (JRef e) (name (QName_parse a)) (JStr v))
                      (\<lambda>h3. Inr (obj, Some e, h3)))"
  using assms
  by (cases "getNamespaceURI ns (prefix (QName_parse a)) = Some xsi")
     (simp_all add: attrStep_def Let_def isNilAttr_def isTypeAttr_def)

lemma attrStep_type:
  assumes "isTypeAttr ns a"
  shows "attrStep opts ns (a, v) (obj, ea, h)
     = (case (case ea of Some e \<Rightarrow> (h, e) | None \<Rightarrow> alloc h (HObj [])) of
          (h1, e) \<Rightarrow>
            (case alloc h1 (HObj [(''type'', JStr (name (QName_parse v))),
                                  (''xmlns'',
                                   if prefix (QName_parse v) \<noteq> []
                                   then (case getNamespaceURI ns (prefix (QName_parse v)) of
                                           Some u \<Rightarrow> JStr u | None \<Rightarrow> JNull)
                                   else JNull)]) of
               (h2, x) \<Rightarrow> bindE (setProp h2 (JRef e) (xsiTypeKey opts) (JRef x))
                            (\<lambda>h3. Inr (obj, Some e, h3))))"
  using assms by (simp add: attrStep_def Let_def isTypeAttr_def)

lemma attrStep_regular:
  assumes r: "isRegularAttr ns a"
      and c: "isTypeAttr ns a \<longrightarrow> xsiTypeKey opts \<noteq> ''__proto__''"
      and i: "amapInv l0 ea h ps"
  shows "\<exists>e h' ps'. attrStep opts ns (a, v) (obj, ea, h) = Inr (obj, Some e, h')
           \<and> amapInv l0 (Some e) h' ps' \<and> take l0 h' = take l0 h
           \<and> treeOf h' ps'
              = (if attrKey opts ns a = ''__proto__'' then treeOf h ps
                 else put (treeOf h ps) (attrKey opts ns a) (attrValue ns (a, v)))"
proof -
  from r have nx: "\<not> isXmlns a" and nn: "\<not> isNilAttr ns a"
    by (simp_all add: isRegularAttr_def)
  define h1 where "h1 = (case ea of Some e \<Rightarrow> h | None \<Rightarrow> h @ [HObj []])"
  define e where "e = (case ea of Some e \<Rightarrow> e | None \<Rightarrow> length h)"
  have al: "(case ea of Some e \<Rightarrow> (h, e) | None \<Rightarrow> alloc h (HObj [])) = (h1, e)"
    by (simp add: h1_def e_def alloc_def split: option.splits)
  from i have i1: "amapInv l0 (Some e) h1 ps"
    by (auto simp: amapInv_def amapOK_def h1_def e_def nth_append split: option.splits)
  then have e: "e < length h1" "h1 ! e = HObj ps" "l0 \<le> e" "l0 \<le> length h1"
    and fr: "\<forall>w\<in>set (map snd ps). \<forall>y. w = JRef y \<longrightarrow> y < length h1 \<and> e \<noteq> y"
    by (auto simp: amapInv_def amapOK_def)
  have t1: "treeOf h1 ps = treeOf h ps"
  proof (rule treeOf_frame)
    show "\<forall>w\<in>set (map snd ps). \<forall>y. w = JRef y \<longrightarrow> y < length h \<and> y < length h1 \<and> h1 ! y = h ! y"
      using i by (auto simp: amapInv_def h1_def nth_append split: option.splits)
  qed
  have p1: "take l0 h1 = take l0 h"
    using i by (auto simp: amapInv_def h1_def split: option.splits)
  show ?thesis
  proof (cases "isTypeAttr ns a")
    case False
    then have k: "attrKey opts ns a = name (QName_parse a)"
      and nt: "\<not> (getNamespaceURI ns (prefix (QName_parse a)) = Some xsi
                  \<and> name (QName_parse a) = ''type'')"
      using nx by (auto simp: attrKey_def isTypeAttr_def)
    have val: "attrValue ns (a, v) = VStr v"
      using False by (simp add: attrValue_def)
    show ?thesis
    proof (cases "name (QName_parse a) = ''__proto__''")
      case True
      have st: "attrStep opts ns (a, v) (obj, ea, h) = Inr (obj, Some e, h1)"
        using True e unfolding attrStep_plain [OF nx nn False] al
        by (simp add: setProp_def bindE_def)
      have tr: "treeOf h1 ps
              = (if attrKey opts ns a = ''__proto__'' then treeOf h ps
                 else put (treeOf h ps) (attrKey opts ns a) (attrValue ns (a, v)))"
        using t1 True k by simp
      show ?thesis by (intro exI conjI) (fact st, fact i1, fact p1, fact tr)
    next
      case np: False
      let ?h' = "h1[e := HObj (put ps (name (QName_parse a)) (JStr v))]"
      have st: "attrStep opts ns (a, v) (obj, ea, h) = Inr (obj, Some e, ?h')"
        using np e unfolding attrStep_plain [OF nx nn False] al
        by (simp add: setProp_def bindE_def)
      have "\<forall>w\<in>set (map snd (put ps (name (QName_parse a)) (JStr v))).
              \<forall>y. w = JRef y \<longrightarrow> y < length h1 \<and> e \<noteq> y"
        by (rule refs_put [OF fr]) simp
      then have inv: "amapInv l0 (Some e) ?h' (put ps (name (QName_parse a)) (JStr v))"
        using e by (simp add: amapInv_def amapOK_def)
      have "treeOf ?h' (put ps (name (QName_parse a)) (JStr v))
              = put (treeOf ?h' ps) (name (QName_parse a)) (reify 1 ?h' (JStr v))"
        unfolding treeOf_def by (rule put_map [symmetric])
      moreover have "treeOf ?h' ps = treeOf h1 ps"
        by (rule treeOf_frame) (use fr e in auto)
      ultimately have tr: "treeOf ?h' (put ps (name (QName_parse a)) (JStr v))
              = put (treeOf h ps) (attrKey opts ns a) (attrValue ns (a, v))"
        by (simp add: t1 k val)
      have pt: "take l0 ?h' = take l0 h" using p1 e by simp
      have tr': "treeOf ?h' (put ps (name (QName_parse a)) (JStr v))
              = (if attrKey opts ns a = ''__proto__'' then treeOf h ps
                 else put (treeOf h ps) (attrKey opts ns a) (attrValue ns (a, v)))"
        using tr np k by simp
      show ?thesis by (intro exI conjI) (fact st, fact inv, fact pt, fact tr')
    qed
  next
    case True
    then have ty: "getNamespaceURI ns (prefix (QName_parse a)) = Some xsi"
        "name (QName_parse a) = ''type''"
      by (simp_all add: isTypeAttr_def)
    then have k: "attrKey opts ns a = xsiTypeKey opts" by (simp add: attrKey_def)
    from c True have np: "xsiTypeKey opts \<noteq> ''__proto__''" by simp
    define xm where "xm = (if prefix (QName_parse v) \<noteq> []
                           then (case getNamespaceURI ns (prefix (QName_parse v)) of
                                   Some u \<Rightarrow> JStr u | None \<Rightarrow> JNull)
                           else JNull)"
    define cell where "cell = HObj [(''type'', JStr (name (QName_parse v))), (''xmlns'', xm)]"
    let ?x = "length h1"
    let ?h2 = "h1 @ [cell]"
    let ?h' = "?h2[e := HObj (put ps (xsiTypeKey opts) (JRef ?x))]"
    have st: "attrStep opts ns (a, v) (obj, ea, h) = Inr (obj, Some e, ?h')"
      using np e unfolding attrStep_type [OF True] al
      by (simp add: setProp_def bindE_def alloc_def xm_def cell_def nth_append)
    from fr have "\<forall>w\<in>set (map snd ps). \<forall>y. w = JRef y \<longrightarrow> y < length ?h2 \<and> e \<noteq> y"
      by auto
    then have "\<forall>w\<in>set (map snd (put ps (xsiTypeKey opts) (JRef ?x))).
              \<forall>y. w = JRef y \<longrightarrow> y < length ?h2 \<and> e \<noteq> y"
      by (rule refs_put) (use e in simp)
    then have inv: "amapInv l0 (Some e) ?h' (put ps (xsiTypeKey opts) (JRef ?x))"
      using e by (simp add: amapInv_def amapOK_def nth_append)
    have "treeOf ?h' (put ps (xsiTypeKey opts) (JRef ?x))
            = put (treeOf ?h' ps) (xsiTypeKey opts) (reify 1 ?h' (JRef ?x))"
      unfolding treeOf_def by (rule put_map [symmetric])
    moreover have "treeOf ?h' ps = treeOf h1 ps"
      by (rule treeOf_frame) (use fr e in \<open>auto simp: nth_append\<close>)
    moreover have "reify 1 ?h' (JRef ?x) = attrValue ns (a, v)"
      using e True
      by (auto simp: attrValue_def cell_def xm_def nth_append split: option.splits)
    ultimately have tr: "treeOf ?h' (put ps (xsiTypeKey opts) (JRef ?x))
            = put (treeOf h ps) (attrKey opts ns a) (attrValue ns (a, v))"
      by (simp add: t1 k)
    have pt: "take l0 ?h' = take l0 h" using p1 e by simp
    have tr': "treeOf ?h' (put ps (xsiTypeKey opts) (JRef ?x))
            = (if attrKey opts ns a = ''__proto__'' then treeOf h ps
               else put (treeOf h ps) (attrKey opts ns a) (attrValue ns (a, v)))"
      using tr np k by simp
    show ?thesis by (intro exI conjI) (fact st, fact inv, fact pt, fact tr')
  qed
qed


lemma attrLoop_exact:
  assumes c: "(\<exists>av\<in>set attrs. isTypeAttr ns (fst av)) \<longrightarrow> xsiTypeKey opts \<noteq> ''__proto__''"
      and i: "amapInv l0 ea h ps"
  shows "\<exists>obj' ea' h' ps'. attrLoop opts ns attrs (obj, ea, h) = Inr (obj', ea', h')
     \<and> amapInv l0 ea' h' ps' \<and> take l0 h' = take l0 h
     \<and> (ea' = None \<longleftrightarrow> ea = None \<and> (\<forall>av\<in>set attrs. \<not> isRegularAttr ns (fst av)))
     \<and> (ea' = None \<longrightarrow> h' = h)
     \<and> obj' = (if \<exists>av\<in>set attrs. isNilAttr ns (fst av) \<and> snd av = ''true'' then JNull else obj)
     \<and> treeOf h' ps' = fold (attrWrite opts ns) attrs (treeOf h ps)"
  using c i
proof (induction attrs arbitrary: obj ea h ps)
  case Nil
  then show ?case by auto
next
  case (Cons av attrs)
  obtain a v where av: "av = (a, v)" by (cases av)
  from Cons.prems(1) have c': "(\<exists>av\<in>set attrs. isTypeAttr ns (fst av)) \<longrightarrow> xsiTypeKey opts \<noteq> ''__proto__''"
    by simp
  consider (x) "isXmlns a" | (n) "isNilAttr ns a" | (r) "isRegularAttr ns a"
    using attr_kinds by blast
  then show ?case
  proof cases
    case x
    from Cons.IH [OF c' Cons.prems(2), of obj] x show ?thesis
      by (auto simp: av attrStep_xmlns bindE_def attr_kinds_excl)
  next
    case n
    from Cons.IH [OF c' Cons.prems(2), of "if v = ''true'' then JNull else obj"] n show ?thesis
      by (auto simp: av attrStep_nil bindE_def attr_kinds_excl split: if_splits)
  next
    case r
    from Cons.prems(1) have ct: "isTypeAttr ns a \<longrightarrow> xsiTypeKey opts \<noteq> ''__proto__''"
      by (simp add: av)
    from attrStep_regular [OF r ct Cons.prems(2), of v obj]
    obtain e h1 ps1 where st: "attrStep opts ns (a, v) (obj, ea, h) = Inr (obj, Some e, h1)"
      and i1: "amapInv l0 (Some e) h1 ps1" and p1: "take l0 h1 = take l0 h"
      and t1: "treeOf h1 ps1 = attrWrite opts ns (a, v) (treeOf h ps)"
      using r by auto
    from r have nn: "\<not> isNilAttr ns a" by (simp add: isRegularAttr_def)
    from Cons.IH [OF c' i1, of obj]
    obtain obj' ea' h' ps' where
      l: "attrLoop opts ns attrs (obj, Some e, h1) = Inr (obj', ea', h')"
      and o: "amapInv l0 ea' h' ps'" and p: "take l0 h' = take l0 h1"
      and e: "ea' \<noteq> None"
      and ob: "obj' = (if \<exists>av\<in>set attrs. isNilAttr ns (fst av) \<and> snd av = ''true''
                      then JNull else obj)"
      and tr: "treeOf h' ps' = fold (attrWrite opts ns) attrs (treeOf h1 ps1)"
      by blast
    have "attrLoop opts ns (av # attrs) (obj, ea, h) = Inr (obj', ea', h')"
      by (simp add: av st bindE_def l)
    moreover have "(ea' = None) = (ea = None \<and> (\<forall>av\<in>set (av # attrs). \<not> isRegularAttr ns (fst av)))"
      using e r by (simp add: av)
    moreover have "obj' = (if \<exists>av\<in>set (av # attrs). isNilAttr ns (fst av) \<and> snd av = ''true''
                            then JNull else obj)"
      using ob nn by (simp add: av)
    moreover have "treeOf h' ps' = fold (attrWrite opts ns) (av # attrs) (treeOf h ps)"
      using tr t1 by (simp add: av)
    moreover have "take l0 h' = take l0 h" using p p1 by simp
    ultimately show ?thesis using o e by blast
  qed
qed

lemma attrLoop_clash:
  assumes c: "\<exists>av\<in>set attrs. isTypeAttr ns (fst av)" "xsiTypeKey opts = ''__proto__''"
      and i: "amapInv l0 ea h ps"
  shows "attrLoop opts ns attrs (obj, ea, h) = Inl Unmodelled"
  using c(1) i
proof (induction attrs arbitrary: obj ea h ps)
  case Nil
  then show ?case by simp
next
  case (Cons av attrs)
  obtain a v where av: "av = (a, v)" by (cases av)
  show ?case
  proof (cases "isTypeAttr ns a")
    case True
    define h1 where "h1 = (case ea of Some e \<Rightarrow> h | None \<Rightarrow> h @ [HObj []])"
    define e where "e = (case ea of Some e \<Rightarrow> e | None \<Rightarrow> length h)"
    have al: "(case ea of Some e \<Rightarrow> (h, e) | None \<Rightarrow> alloc h (HObj [])) = (h1, e)"
      by (simp add: h1_def e_def alloc_def split: option.splits)
    from Cons.prems(2) have "e < length h1" "\<exists>qs. h1 ! e = HObj qs"
      by (auto simp: amapInv_def amapOK_def h1_def e_def nth_append split: option.splits)
    then have "attrStep opts ns (a, v) (obj, ea, h) = Inl Unmodelled"
      unfolding attrStep_type [OF True] al
      by (auto simp: setProp_def bindE_def alloc_def c(2) nth_append)
    then show ?thesis by (simp add: av bindE_def)
  next
    case False
    with Cons.prems(1) have t: "\<exists>av\<in>set attrs. isTypeAttr ns (fst av)" by (simp add: av)
    consider (x) "isXmlns a" | (n) "isNilAttr ns a" | (r) "isRegularAttr ns a"
      using attr_kinds by blast
    then show ?thesis
    proof cases
      case x
      then show ?thesis using Cons.IH [OF t Cons.prems(2)]
        by (simp add: av attrStep_xmlns bindE_def)
    next
      case n
      then show ?thesis using Cons.IH [OF t Cons.prems(2)]
        by (simp add: av attrStep_nil bindE_def)
    next
      case r
      from attrStep_regular [OF r _ Cons.prems(2), of opts v obj] False
      obtain e h1 ps1 where st: "attrStep opts ns (a, v) (obj, ea, h) = Inr (obj, Some e, h1)"
        and i1: "amapInv l0 (Some e) h1 ps1"
        by auto
      show ?thesis using Cons.IH [OF t i1] by (simp add: av st bindE_def)
    qed
  qed
qed

lemma elementObject_clash:
  assumes "protoClash opts ns attrs"
  shows "elementObject opts ns attrs h = Inl Unmodelled"
proof -
  have i0: "amapInv (length h) None h []" by (simp add: amapInv_def amapOK_def)
  show ?thesis
  proof (cases "(\<exists>av\<in>set attrs. isTypeAttr ns (fst av)) \<and> xsiTypeKey opts = ''__proto__''")
    case True
    then show ?thesis
      using attrLoop_clash [OF _ _ i0, of attrs ns opts JUndefined]
      by (simp add: elementObject_def bindE_def)
  next
    case False
    with assms have r: "\<exists>av\<in>set attrs. isRegularAttr ns (fst av)"
      and k: "attributesKey opts = ''__proto__''"
      by (auto simp: protoClash_def)
    from False have c: "(\<exists>av\<in>set attrs. isTypeAttr ns (fst av)) \<longrightarrow> xsiTypeKey opts \<noteq> ''__proto__''"
      by blast
    from attrLoop_exact [OF c i0, of JUndefined]
    obtain obj' ea' h' ps' where
      l: "attrLoop opts ns attrs (JUndefined, None, h) = Inr (obj', ea', h')"
      and e: "(ea' = None) = ((None :: addr option) = None \<and> (\<forall>av\<in>set attrs. \<not> isRegularAttr ns (fst av)))"
      by blast
    from e r obtain a where a: "ea' = Some a" by auto
    show ?thesis
      by (simp add: elementObject_def bindE_def l a seedObject_def alloc_def setProp_def k)
  qed
qed

lemma elementObject_result:
  assumes "\<not> protoClash opts ns attrs"
  shows "\<exists>obj h'. elementObject opts ns attrs h = Inr (obj, h') \<and> take (length h) h' = h
      \<and> ((\<exists>av\<in>set attrs. isRegularAttr ns (fst av)) \<longrightarrow>
            (\<exists>ob. obj = JRef ob \<and> length h \<le> ob
               \<and> reify 3 h' (JRef ob) = VObj [(attributesKey opts, VObj (attrMap opts ns attrs))]))
      \<and> ((\<forall>av\<in>set attrs. \<not> isRegularAttr ns (fst av)) \<longrightarrow>
            h' = h \<and> obj = (if \<exists>av\<in>set attrs. isNilAttr ns (fst av) \<and> snd av = ''true''
                             then JNull else JUndefined))"
proof -
  have i0: "amapInv (length h) None h []" by (simp add: amapInv_def amapOK_def)
  from assms have c: "(\<exists>av\<in>set attrs. isTypeAttr ns (fst av)) \<longrightarrow> xsiTypeKey opts \<noteq> ''__proto__''"
    by (auto simp: protoClash_def)
  from attrLoop_exact [OF c i0, of JUndefined]
  obtain obj' ea' h1 ps' where
      l: "attrLoop opts ns attrs (JUndefined, None, h) = Inr (obj', ea', h1)"
      and o: "amapInv (length h) ea' h1 ps'" and p: "take (length h) h1 = take (length h) h"
      and e0: "(ea' = None) =
                 ((None :: addr option) = None \<and> (\<forall>av\<in>set attrs. \<not> isRegularAttr ns (fst av)))"
      and same: "ea' = None \<longrightarrow> h1 = h"
      and ob: "obj' = (if \<exists>av\<in>set attrs. isNilAttr ns (fst av) \<and> snd av = ''true''
                      then JNull else JUndefined)"
      and tr: "treeOf h1 ps' = fold (attrWrite opts ns) attrs (treeOf h [])"
    by blast
  from e0 have e: "(ea' = None) = (\<forall>av\<in>set attrs. \<not> isRegularAttr ns (fst av))"
    by simp
  show ?thesis
  proof (cases ea')
    case None
    with l e ob same show ?thesis
      by (auto simp: elementObject_def bindE_def seedObject_def)
  next
    case (Some a)
    with e assms have k: "attributesKey opts \<noteq> ''__proto__''"
      by (auto simp: protoClash_def)
    from Some o have a: "a < length h1" "h1 ! a = HObj ps'" "length h \<le> length h1"
      and fr: "\<forall>w\<in>set (map snd ps'). \<forall>y. w = JRef y \<longrightarrow> y < length h1"
      by (auto simp: amapInv_def amapOK_def)
    let ?h2 = "(h1 @ [HObj []])[length h1 := HObj [(attributesKey opts, JRef a)]]"
    have r: "elementObject opts ns attrs h = Inr (JRef (length h1), ?h2)"
      using l Some k
      by (simp add: elementObject_def bindE_def seedObject_def alloc_def setProp_def put_empty)
    have t2: "treeOf ?h2 ps' = treeOf h1 ps'"
      by (rule treeOf_frame) (use fr in \<open>auto simp: nth_append\<close>)
    have r2: "reify 2 ?h2 (JRef a) = VObj (treeOf ?h2 ps')"
      using a by (simp add: numeral_2_eq_2 treeOf_def nth_append)
    have r3: "reify 3 ?h2 (JRef (length h1)) = VObj [(attributesKey opts, reify 2 ?h2 (JRef a))]"
      by (simp add: numeral_3_eq_3 numeral_2_eq_2)
    have t0: "treeOf h [] = []" by (simp add: treeOf_def)
    have "reify 3 ?h2 (JRef (length h1))
                 = VObj [(attributesKey opts, VObj (attrMap opts ns attrs))]"
      by (simp only: r3 r2 t2 tr t0 attrMap_def)
    moreover have "take (length h) ?h2 = h" using p a by simp
    ultimately show ?thesis using r e Some a by auto
  qed
qed

lemma map_of_attrWrite:
  "map_of (attrWrite opts ns av m) k
     = (if isRegularAttr ns (fst av) \<and> attrKey opts ns (fst av) \<noteq> ''__proto__''
           \<and> k = attrKey opts ns (fst av)
        then Some (attrValue ns av) else map_of m k)"
  by (simp add: map_of_put)

lemma fold_attrWrite_other:
  assumes "\<forall>bv\<in>set ys. isRegularAttr ns (fst bv) \<longrightarrow> attrKey opts ns (fst bv) \<noteq> k"
  shows "map_of (fold (attrWrite opts ns) ys m) k = map_of m k"
  using assms
proof (induction ys arbitrary: m)
  case Nil
  then show ?case by simp
next
  case (Cons y ys)
  have "map_of (fold (attrWrite opts ns) (y # ys) m) k
          = map_of (fold (attrWrite opts ns) ys (attrWrite opts ns y m)) k"
    by simp
  also have "\<dots> = map_of (attrWrite opts ns y m) k" using Cons by simp
  also have "\<dots> = map_of m k" using Cons.prems by (auto simp: map_of_put)
  finally show ?case .
qed

lemma attrMap_last:
  assumes "attrs = xs @ av # ys" "isRegularAttr ns (fst av)"
      and "attrKey opts ns (fst av) \<noteq> ''__proto__''"
      and "\<forall>bv\<in>set ys. isRegularAttr ns (fst bv)
              \<longrightarrow> attrKey opts ns (fst bv) \<noteq> attrKey opts ns (fst av)"
  shows "map_of (attrMap opts ns attrs) (attrKey opts ns (fst av)) = Some (attrValue ns av)"
proof -
  let ?k = "attrKey opts ns (fst av)"
  have "map_of (attrMap opts ns attrs) ?k
          = map_of (fold (attrWrite opts ns) ys (attrWrite opts ns av (fold (attrWrite opts ns) xs []))) ?k"
    by (simp add: attrMap_def assms(1))
  also have "\<dots> = map_of (attrWrite opts ns av (fold (attrWrite opts ns) xs [])) ?k"
    by (rule fold_attrWrite_other [OF assms(4)])
  also have "\<dots> = Some (attrValue ns av)"
    using assms(2,3) by (simp add: map_of_put)
  finally show ?thesis .
qed

lemma fold_attrWrite_keys:
  "hasOwn (fold (attrWrite opts ns) attrs m) k
     = (hasOwn m k \<or> (k \<noteq> ''__proto__''
         \<and> (\<exists>av\<in>set attrs. isRegularAttr ns (fst av) \<and> attrKey opts ns (fst av) = k)))"
proof (induction attrs arbitrary: m)
  case Nil
  then show ?case by simp
next
  case (Cons y ys)
  have "hasOwn (attrWrite opts ns y m) k
          = (hasOwn m k \<or> (k \<noteq> ''__proto__'' \<and> isRegularAttr ns (fst y) \<and> attrKey opts ns (fst y) = k))"
    by (auto simp: hasOwn_put)
  then show ?case using Cons [of "attrWrite opts ns y m"] by auto
qed

lemma attrMap_keys:
  "hasOwn (attrMap opts ns attrs) k
     = (k \<noteq> ''__proto__''
         \<and> (\<exists>av\<in>set attrs. isRegularAttr ns (fst av) \<and> attrKey opts ns (fst av) = k))"
  unfolding attrMap_def by (subst fold_attrWrite_keys) (simp add: hasOwn_def)

lemma pushHref_result:
  "pushHref refs i st
     = (if \<not> hasOwn refs i \<and> i \<in> set objectPrototype then Inl TypeError
        else Inr (put (ensureRef refs i) i
                    ((the (map_of (ensureRef refs i) i))\<lparr>hrefs := hrefs (the (map_of (ensureRef refs i) i)) @ [st]\<rparr>)))"
  by (auto simp: pushHref_def ensureRef_def map_of_put hasOwn_def split: option.splits)

text \<open>
  Claim C10, as amended. Let \<open>ns\<close> be the scopes of an element, its own namespace declarations
  registered, and call regular an attribute that is neither a namespace declaration nor
  \<^verbatim>\<open>nil\<close> of the XML-Schema-Instance namespace (under whatever prefix). The handler
  returns a state with a new frame on the stack, but when the stack is empty or the
  \<^verbatim>\<open>href\<close> names a member the registry inherits (a \<^verbatim>\<open>TypeError\<close>), or when a configured
  key \<^verbatim>\<open>__proto__\<close> would replace the prototype of a map (outside the embedding). If the
  element has a regular attribute then, whether or not it also carries
  \<^verbatim>\<open>xsi:nil="true"\<close>, the object of the frame is a new object whose one property, under
  the attributes-key, is the attribute map, and the attribute map is \<open>attrMap\<close>: its
  keys are the keys of the regular attributes (\<^verbatim>\<open>__proto__\<close> left out, the setter drops
  a text), and under the key of a regular attribute it holds the value of the last
  attribute with that key: the text of the attribute, or \<^verbatim>\<open>{type, xmlns}\<close> for
  \<^verbatim>\<open>xsi:type\<close>. The null mark is overridden. The object of the frame is \<^verbatim>\<open>null\<close>
  exactly when the element has no regular attribute and carries \<^verbatim>\<open>xsi:nil="true"\<close>;
  without a regular attribute no object is made. The cells the store had are as they
  were.
\<close>

theorem onopentag_seed:
  assumes "ns = registerNamespaces (pushContext (p_ns s)) attrs"
  shows "(p_stack s = [] \<longrightarrow> onopentag opts s nsName attrs = Inl TypeError)
     \<and> (p_stack s \<noteq> [] \<and> protoClash opts ns attrs \<longrightarrow>
          onopentag opts s nsName attrs = Inl Unmodelled)
     \<and> (p_stack s \<noteq> [] \<and> \<not> protoClash opts ns attrs \<and> hrefMiss (p_refs s) attrs \<longrightarrow>
          onopentag opts s nsName attrs = Inl TypeError)
     \<and> (p_stack s \<noteq> [] \<and> \<not> protoClash opts ns attrs \<and> \<not> hrefMiss (p_refs s) attrs \<longrightarrow>
          (\<exists>s' f. onopentag opts s nsName attrs = Inr s' \<and> p_stack s' = f # p_stack s
             \<and> take (length (p_heap s)) (p_heap s') = p_heap s
             \<and> ((\<exists>av\<in>set attrs. isRegularAttr ns (fst av)) \<longrightarrow>
                   (\<exists>ob. f_object f = JRef ob \<and> length (p_heap s) \<le> ob
                      \<and> reify 3 (p_heap s') (JRef ob)
                          = VObj [(attributesKey opts, VObj (attrMap opts ns attrs))]))
             \<and> (f_object f = JNull \<longleftrightarrow>
                   (\<forall>av\<in>set attrs. \<not> isRegularAttr ns (fst av))
                   \<and> (\<exists>av\<in>set attrs. isNilAttr ns (fst av) \<and> snd av = ''true''))
             \<and> ((\<forall>av\<in>set attrs. \<not> isRegularAttr ns (fst av)) \<longrightarrow>
                   p_heap s' = p_heap s \<and> (f_object f = JNull \<or> f_object f = JUndefined))))
     \<and> (\<forall>k. hasOwn (attrMap opts ns attrs) k \<longleftrightarrow>
              k \<noteq> ''__proto__''
              \<and> (\<exists>av\<in>set attrs. isRegularAttr ns (fst av) \<and> attrKey opts ns (fst av) = k))
     \<and> (\<forall>xs av ys. attrs = xs @ av # ys \<and> isRegularAttr ns (fst av)
            \<and> attrKey opts ns (fst av) \<noteq> ''__proto__''
            \<and> (\<forall>bv\<in>set ys. isRegularAttr ns (fst bv)
                   \<longrightarrow> attrKey opts ns (fst bv) \<noteq> attrKey opts ns (fst av))
            \<longrightarrow> map_of (attrMap opts ns attrs) (attrKey opts ns (fst av))
                  = Some (attrValue ns av))"
proof -
  have a: "p_stack s = [] \<longrightarrow> onopentag opts s nsName attrs = Inl TypeError"
    by (simp add: onopentag_def)
  have b: "p_stack s \<noteq> [] \<and> protoClash opts ns attrs \<longrightarrow>
          onopentag opts s nsName attrs = Inl Unmodelled"
    using elementObject_clash [of opts ns attrs "p_heap s"] assms
    by (cases "p_stack s") (auto simp: onopentag_def Let_def bindE_def)
  have cd: "onopentag opts s nsName attrs = Inl TypeError"
    if ne: "p_stack s \<noteq> []" and nc: "\<not> protoClash opts ns attrs" and hm: "hrefMiss (p_refs s) attrs"
  proof -
    from ne obtain topf below where st: "p_stack s = topf # below"
      by (cases "p_stack s") auto
    from elementObject_result [OF nc, of "p_heap s"]
    obtain obj h' where eo: "elementObject opts ns attrs (p_heap s) = Inr (obj, h')"
      by blast
    from hm obtain v where v: "map_of attrs ''href'' = Some v"
        "\<not> hasOwn (p_refs s) (drop 1 v)" "drop 1 v \<in> set objectPrototype"
      by (auto simp: hrefMiss_def split: option.splits)
    show ?thesis
      using st eo v assms
      by (simp add: onopentag_def Let_def bindE_def pushHref_result)
  qed
  have e: "\<exists>s' f. onopentag opts s nsName attrs = Inr s' \<and> p_stack s' = f # p_stack s
             \<and> take (length (p_heap s)) (p_heap s') = p_heap s
             \<and> ((\<exists>av\<in>set attrs. isRegularAttr ns (fst av)) \<longrightarrow>
                   (\<exists>ob. f_object f = JRef ob \<and> length (p_heap s) \<le> ob
                      \<and> reify 3 (p_heap s') (JRef ob)
                          = VObj [(attributesKey opts, VObj (attrMap opts ns attrs))]))
             \<and> (f_object f = JNull \<longleftrightarrow>
                   (\<forall>av\<in>set attrs. \<not> isRegularAttr ns (fst av))
                   \<and> (\<exists>av\<in>set attrs. isNilAttr ns (fst av) \<and> snd av = ''true''))
             \<and> ((\<forall>av\<in>set attrs. \<not> isRegularAttr ns (fst av)) \<longrightarrow>
                   p_heap s' = p_heap s \<and> (f_object f = JNull \<or> f_object f = JUndefined))"
    if ne: "p_stack s \<noteq> []" and nc: "\<not> protoClash opts ns attrs" and hm: "\<not> hrefMiss (p_refs s) attrs"
  proof -
    from ne obtain topf below where st: "p_stack s = topf # below"
      by (cases "p_stack s") auto
    from elementObject_result [OF nc, of "p_heap s"]
    obtain obj h' where eo: "elementObject opts ns attrs (p_heap s) = Inr (obj, h')"
      and pre: "take (length (p_heap s)) h' = p_heap s"
      and reg: "(\<exists>av\<in>set attrs. isRegularAttr ns (fst av)) \<longrightarrow>
            (\<exists>ob. obj = JRef ob \<and> length (p_heap s) \<le> ob
               \<and> reify 3 h' (JRef ob) = VObj [(attributesKey opts, VObj (attrMap opts ns attrs))])"
      and non: "(\<forall>av\<in>set attrs. \<not> isRegularAttr ns (fst av)) \<longrightarrow>
            h' = p_heap s \<and> obj = (if \<exists>av\<in>set attrs. isNilAttr ns (fst av) \<and> snd av = ''true''
                             then JNull else JUndefined)"
      by blast
    let ?n = "name (QName_parse nsName)"
    let ?site = "\<lparr>s_parent = f_object topf, s_key = ?n, s_object = obj\<rparr>"
    have "\<exists>refs1. (case map_of attrs ''href'' of None \<Rightarrow> Inr (p_refs s)
                    | Some href \<Rightarrow> pushHref (p_refs s) (drop 1 href) ?site) = Inr refs1"
      using hm by (cases "map_of attrs ''href''") (auto simp: hrefMiss_def pushHref_result)
    then obtain refs1 where rf:
      "(case map_of attrs ''href'' of None \<Rightarrow> Inr (p_refs s)
        | Some href \<Rightarrow> pushHref (p_refs s) (drop 1 href) ?site) = Inr refs1"
      by blast
    let ?f = "\<lparr>f_name = Some ?n, f_object = obj,
               f_descriptor = (case f_descriptor topf of None \<Rightarrow> None
                               | Some d \<Rightarrow> findElement d ?n),
               f_id = map_of attrs ''id''\<rparr>"
    let ?s' = "\<lparr>p_heap = h', p_stack = ?f # topf # below,
                p_refs = (case map_of attrs ''id'' of None \<Rightarrow> refs1
                          | Some i \<Rightarrow> ensureRef refs1 i),
                p_ns = ns\<rparr>"
    have r: "onopentag opts s nsName attrs = Inr ?s'"
      using st eo rf assms by (simp add: onopentag_def Let_def bindE_def)
    have p: "p_stack ?s' = ?f # p_stack s" using st by simp
    have nul: "f_object ?f = JNull \<longleftrightarrow>
                   (\<forall>av\<in>set attrs. \<not> isRegularAttr ns (fst av))
                   \<and> (\<exists>av\<in>set attrs. isNilAttr ns (fst av) \<and> snd av = ''true'')"
    proof (cases "\<exists>av\<in>set attrs. isRegularAttr ns (fst av)")
      case True
      with reg show ?thesis by auto
    next
      case False
      with non have "obj = (if \<exists>av\<in>set attrs. isNilAttr ns (fst av) \<and> snd av = ''true''
                             then JNull else JUndefined)"
        by blast
      with False show ?thesis by (simp split: if_splits)
    qed
    have non': "(\<forall>av\<in>set attrs. \<not> isRegularAttr ns (fst av)) \<longrightarrow>
                   p_heap ?s' = p_heap s \<and> (f_object ?f = JNull \<or> f_object ?f = JUndefined)"
      using non by auto
    have reg': "(\<exists>av\<in>set attrs. isRegularAttr ns (fst av)) \<longrightarrow>
                   (\<exists>ob. f_object ?f = JRef ob \<and> length (p_heap s) \<le> ob
                      \<and> reify 3 (p_heap ?s') (JRef ob)
                          = VObj [(attributesKey opts, VObj (attrMap opts ns attrs))])"
      using reg by simp
    have pre': "take (length (p_heap s)) (p_heap ?s') = p_heap s" using pre by simp
    show ?thesis
      by (intro exI conjI) (fact r, fact p, fact pre', fact reg', fact nul, fact non')
  qed
  have k: "\<forall>k. hasOwn (attrMap opts ns attrs) k \<longleftrightarrow>
              k \<noteq> ''__proto__''
              \<and> (\<exists>av\<in>set attrs. isRegularAttr ns (fst av) \<and> attrKey opts ns (fst av) = k)"
    by (simp add: attrMap_keys)
  have l: "\<forall>xs av ys. attrs = xs @ av # ys \<and> isRegularAttr ns (fst av)
            \<and> attrKey opts ns (fst av) \<noteq> ''__proto__''
            \<and> (\<forall>bv\<in>set ys. isRegularAttr ns (fst bv)
                   \<longrightarrow> attrKey opts ns (fst bv) \<noteq> attrKey opts ns (fst av))
            \<longrightarrow> map_of (attrMap opts ns attrs) (attrKey opts ns (fst av))
                  = Some (attrValue ns av)"
    using attrMap_last by blast
  from a b cd e k l show ?thesis by blast
qed


theorem onopentag_seed_witness:
  "(\<exists>s' f ob.
       onopentag defaultOptions (initialState [] None) ''a''
         [(''xmlns:xsi'', xsi), (''xmlns:t'', ''urn:t''), (''xsi:nil'', ''true''),
          (''k'', ''v''), (''xsi:type'', ''t:T'')] = Inr s'
     \<and> p_stack s' = f # p_stack (initialState [] None)
     \<and> f_object f = JRef ob
     \<and> reify 3 (p_heap s') (JRef ob)
          = VObj [(''$attributes'',
                   VObj [(''k'', VStr ''v''),
                         (''$xsiType'', VObj [(''type'', VStr ''T''), (''xmlns'', VStr ''urn:t'')])])])
   \<and> (\<exists>s' f.
       onopentag defaultOptions (initialState [] None) ''a''
         [(''xmlns:xsi'', xsi), (''xsi:nil'', ''true'')] = Inr s'
     \<and> p_stack s' = f # p_stack (initialState [] None)
     \<and> p_heap s' = p_heap (initialState [] None)
     \<and> f_object f = JNull)"
proof -
  let ?a1 = "[(''xmlns:xsi'', xsi), (''xmlns:t'', ''urn:t''), (''xsi:nil'', ''true''),
              (''k'', ''v''), (''xsi:type'', ''t:T'')]"
  let ?a2 = "[(''xmlns:xsi'', xsi), (''xsi:nil'', ''true'')]"
  let ?s = "initialState [] None"
  let ?n1 = "registerNamespaces (pushContext (p_ns ?s)) ?a1"
  let ?n2 = "registerNamespaces (pushContext (p_ns ?s)) ?a2"
  have k1: "\<exists>av\<in>set ?a1. isRegularAttr ?n1 (fst av)"
      "\<not> protoClash defaultOptions ?n1 ?a1" "\<not> hrefMiss (p_refs ?s) ?a1"
      "attrMap defaultOptions ?n1 ?a1
         = [(''k'', VStr ''v''),
            (''$xsiType'', VObj [(''type'', VStr ''T''), (''xmlns'', VStr ''urn:t'')])]"
    by code_simp+
  have k2: "\<forall>av\<in>set ?a2. \<not> isRegularAttr ?n2 (fst av)"
      "\<exists>av\<in>set ?a2. isNilAttr ?n2 (fst av) \<and> snd av = ''true''"
      "\<not> protoClash defaultOptions ?n2 ?a2" "\<not> hrefMiss (p_refs ?s) ?a2"
    by code_simp+
  have o: "p_stack ?s \<noteq> []" "attributesKey defaultOptions = ''$attributes''"
    by (simp_all add: defaultOptions_def initialState_def)
  note t1 = onopentag_seed [OF refl, where s = ?s and opts = defaultOptions and attrs = ?a1
              and nsName = "''a''", THEN conjunct2, THEN conjunct2, THEN conjunct2,
              THEN conjunct1, THEN mp, OF conjI [OF o(1) conjI [OF k1(2) k1(3)]]]
  note t2 = onopentag_seed [OF refl, where s = ?s and opts = defaultOptions and attrs = ?a2
              and nsName = "''a''", THEN conjunct2, THEN conjunct2, THEN conjunct2,
              THEN conjunct1, THEN mp, OF conjI [OF o(1) conjI [OF k2(3) k2(4)]]]
  from t1 obtain s1 f1 where r1: "onopentag defaultOptions ?s ''a'' ?a1 = Inr s1"
      "p_stack s1 = f1 # p_stack ?s"
    and reg: "(\<exists>av\<in>set ?a1. isRegularAttr ?n1 (fst av)) \<longrightarrow>
                   (\<exists>ob. f_object f1 = JRef ob \<and> length (p_heap ?s) \<le> ob
                      \<and> reify 3 (p_heap s1) (JRef ob)
                          = VObj [(attributesKey defaultOptions, VObj (attrMap defaultOptions ?n1 ?a1))])"
    by (elim exE conjE)
  from reg [THEN mp, OF k1(1)] obtain ob where ob: "f_object f1 = JRef ob"
    "reify 3 (p_heap s1) (JRef ob)
       = VObj [(attributesKey defaultOptions, VObj (attrMap defaultOptions ?n1 ?a1))]"
    by (elim exE conjE)
  have w1: "\<exists>s' f ob.
       onopentag defaultOptions ?s ''a'' ?a1 = Inr s'
     \<and> p_stack s' = f # p_stack ?s \<and> f_object f = JRef ob
     \<and> reify 3 (p_heap s') (JRef ob)
          = VObj [(''$attributes'',
                   VObj [(''k'', VStr ''v''),
                         (''$xsiType'', VObj [(''type'', VStr ''T''), (''xmlns'', VStr ''urn:t'')])])]"
    using r1 ob unfolding k1(4) o(2)
    by (intro exI [of _ s1] exI [of _ f1] exI [of _ ob] conjI)
  from t2 obtain s2 f2 where r2: "onopentag defaultOptions ?s ''a'' ?a2 = Inr s2"
      "p_stack s2 = f2 # p_stack ?s"
    and nul: "f_object f2 = JNull \<longleftrightarrow>
                   (\<forall>av\<in>set ?a2. \<not> isRegularAttr ?n2 (fst av))
                   \<and> (\<exists>av\<in>set ?a2. isNilAttr ?n2 (fst av) \<and> snd av = ''true'')"
    and non: "(\<forall>av\<in>set ?a2. \<not> isRegularAttr ?n2 (fst av)) \<longrightarrow>
                   p_heap s2 = p_heap ?s \<and> (f_object f2 = JNull \<or> f_object f2 = JUndefined)"
    by (elim exE conjE)
  from nul k2(1,2) have n2: "f_object f2 = JNull" by (rule iffD2 [OF _ conjI])
  from non [THEN mp, OF k2(1)] have h2: "p_heap s2 = p_heap ?s" by (rule conjunct1)
  have w2: "\<exists>s' f.
       onopentag defaultOptions ?s ''a'' ?a2 = Inr s'
     \<and> p_stack s' = f # p_stack ?s \<and> p_heap s' = p_heap ?s \<and> f_object f = JNull"
    using r2 n2 h2 by (intro exI [of _ s2] exI [of _ f2] conjI)
  from w1 w2 show ?thesis by (rule conjI)
qed

text \<open>
  An element that carries \<^verbatim>\<open>xsi:nil="true"\<close> and, as its one other attribute that is no
  namespace declaration, \<^verbatim>\<open>x:nil="false"\<close> under a second prefix of the
  XML-Schema-Instance namespace: the object of its frame is \<^verbatim>\<open>null\<close>, no map is
  seeded. And an element that carries \<^verbatim>\<open>xsi:nil="true"\<close> and \<^verbatim>\<open>href="#constructor"\<close>:
  the handler throws, no frame is pushed.
\<close>

theorem onopentag_seed_counterexample:
  "frameObjects
     (onopentag defaultOptions (initialState [] None) ''a''
        [(''xmlns:xsi'', xsi), (''xmlns:x'', xsi), (''xsi:nil'', ''true''),
         (''x:nil'', ''false'')])
     = Inr [JNull, JRef 0]
   \<and> frameObjects
     (onopentag defaultOptions (initialState [] None) ''a''
        [(''xmlns:xsi'', xsi), (''xsi:nil'', ''true''), (''href'', ''#constructor'')])
     = Inl TypeError"
  by code_simp


section \<open>The order of the properties\<close>

lemma pos_le: "pos xs x \<le> length xs"
  by (induction xs) auto

lemma pos_less: "x \<in> set xs \<longleftrightarrow> pos xs x < length xs"
  by (induction xs) auto

lemma pos_notin: "x \<notin> set xs \<Longrightarrow> pos xs x = length xs"
  by (induction xs) auto

lemma pos_inj: "x \<in> set xs \<Longrightarrow> pos xs x = pos xs y \<Longrightarrow> x = y"
  by (induction xs) (auto split: if_splits)

lemma indexOf_pos:
  "indexOf xs x = (if x \<in> set xs then int (pos xs x) else - 1)"
  by (induction xs) (auto simp: Let_def)

lemma compare_pos: "compare a b xs = int (pos xs a) - int (pos xs b)"
  by (auto simp: compare_def Let_def indexOf_pos pos_notin)

lemma cmp_key:
  "(let result = compare a b order in if result = 0 then compare a b keys else result) \<le> 0
     \<longleftrightarrow> keyOf keys order a \<le> keyOf keys order b"
  by (auto simp: Let_def compare_pos keyOf_def less_eq_prod_def)

lemma set_insertBy: "set (insertBy c x xs) = insert x (set xs)"
  by (induction xs) auto

lemma distinct_insertBy: "distinct (insertBy c x xs) = (x \<notin> set xs \<and> distinct xs)"
  by (induction xs) (auto simp: set_insertBy)

lemma sorted_insertBy:
  assumes "\<And>a b. c a b \<le> 0 \<longleftrightarrow> f a \<le> (f b :: 'k :: linorder)"
  shows "sorted (map f xs) \<Longrightarrow> sorted (map f (insertBy c x xs))"
  using assms by (induction xs) (auto simp: set_insertBy)

lemma set_sortBy: "set (sortBy c xs) = set xs"
  unfolding sortBy_def by (induction xs) (auto simp: set_insertBy)

lemma distinct_sortBy: "distinct (sortBy c xs) = distinct xs"
proof (induction xs)
  case Nil
  then show ?case by (simp add: sortBy_def)
next
  case (Cons x xs)
  have "sortBy c (x # xs) = insertBy c x (sortBy c xs)" by (simp add: sortBy_def)
  then show ?case using Cons by (simp add: distinct_insertBy set_sortBy)
qed

lemma sorted_sortBy:
  assumes "\<And>a b. c a b \<le> 0 \<longleftrightarrow> f a \<le> (f b :: 'k :: linorder)"
  shows "sorted (map f (sortBy c xs))"
  unfolding sortBy_def by (induction xs) (auto intro: sorted_insertBy [OF assms])

lemma keyOf_inj: "distinct keys \<Longrightarrow> inj_on (keyOf keys order) (set keys)"
  by (auto simp: inj_on_def keyOf_def dest: pos_inj)

lemma pos_sorted: "distinct xs \<Longrightarrow> sorted_wrt (\<lambda>a b. pos xs a < pos xs b) xs"
proof (induction xs)
  case Nil
  then show ?case by simp
next
  case (Cons x xs)
  then have ih: "sorted_wrt (\<lambda>a b. pos xs a < pos xs b) xs" by simp
  have "sorted_wrt (\<lambda>a b. pos (x # xs) a < pos (x # xs) b) xs"
    using Cons.prems by (intro sorted_wrt_mono_rel [OF _ ih]) auto
  then show ?case using Cons.prems by auto
qed

lemma sorted_declaredFirst:
  assumes "distinct keys"
  shows "sorted (map (keyOf keys order) (declaredFirst keys order))"
proof -
  let ?M = "filter (\<lambda>k. k \<in> set order) keys"
  let ?R = "filter (\<lambda>k. k \<notin> set order) keys"
  let ?S = "sort_key (pos order) ?M"
  let ?P = "\<lambda>a b. keyOf keys order a \<le> keyOf keys order b"
  have dS: "distinct ?S" using assms by simp
  have inS: "set ?S \<subseteq> set order" by auto
  have "sorted (map (pos order) ?S)" by (rule sorted_sort_key)
  moreover have "distinct (map (pos order) ?S)"
    using dS inS by (auto simp: distinct_map inj_on_def dest: pos_inj)
  ultimately have "sorted_wrt (\<lambda>a b. pos order a < pos order b) ?S"
    by (metis sorted_wrt_map strict_sorted_iff)
  then have 1: "sorted_wrt ?P ?S"
    by (rule sorted_wrt_mono_rel [rotated]) (auto simp: keyOf_def less_eq_prod_def)
  have "sorted_wrt (\<lambda>a b. pos keys a < pos keys b) ?R"
    using pos_sorted [OF assms] by (rule sorted_wrt_filter)
  then have 2: "sorted_wrt ?P ?R"
    by (rule sorted_wrt_mono_rel [rotated]) (auto simp: keyOf_def less_eq_prod_def pos_notin)
  have 3: "\<forall>a\<in>set ?S. \<forall>b\<in>set ?R. ?P a b"
    by (auto simp: keyOf_def less_eq_prod_def pos_notin pos_less [symmetric])
  from 1 2 3 show ?thesis
    by (simp add: declaredFirst_def sorted_wrt_map [symmetric] sorted_wrt_append
          del: sorted_wrt_map) 
qed

lemma sortKeys_declaredFirst:
  assumes "distinct keys"
  shows "sortKeys keys order = declaredFirst keys order"
proof -
  let ?f = "keyOf keys order"
  let ?c = "\<lambda>n1 n2. let result = compare n1 n2 order
                      in if result = 0 then compare n1 n2 keys else result"
  have c: "\<And>a b. ?c a b \<le> 0 \<longleftrightarrow> ?f a \<le> ?f b" by (rule cmp_key)
  have s1: "sorted (map ?f (sortKeys keys order))" "set (sortKeys keys order) = set keys"
      "distinct (sortKeys keys order)"
    unfolding sortKeys_def using sorted_sortBy [of ?c ?f keys, OF c] assms
    by (auto simp: set_sortBy distinct_sortBy)
  have s2: "sorted (map ?f (declaredFirst keys order))" by (rule sorted_declaredFirst [OF assms])
  have t2: "set (declaredFirst keys order) = set keys" by (auto simp: declaredFirst_def)
  have d2: "distinct (declaredFirst keys order)" using assms by (auto simp: declaredFirst_def)
  have inj: "inj_on ?f (set keys)" by (rule keyOf_inj [OF assms])
  have "map ?f (sortKeys keys order) = map ?f (declaredFirst keys order)"
    using s1 s2 t2 d2 inj
    by (intro sorted_distinct_set_unique) (auto simp: distinct_map)
  then show ?thesis
    using inj s1(2) t2 by (auto dest!: inj_on_map_eq_map [THEN iffD1, rotated])
qed



lemma foldl_Inl: "foldl (\<lambda>r p. bindE r (g p)) (Inl e) names = Inl e"
  by (induction names) (simp_all add: bindE_def)

lemma mapNames_mapInOrder:
  "mapNames ev node ns eff ps names = mapInOrder ev ps names (node, ns, eff)"
proof (induction names arbitrary: node ns eff)
  case Nil
  then show ?case by (simp add: mapInOrder_def)
next
  case (Cons p names)
  have s: "mapInOrder ev ps (p # names) (node, ns, eff)
             = (case mapProperty ev ps p (node, ns, eff) of
                  Inl e \<Rightarrow> Inl e
                | Inr st \<Rightarrow> mapInOrder ev ps names st)"
  proof -
    have b: "bindE (Inr (node, ns, eff)) (mapProperty ev ps p) = mapProperty ev ps p (node, ns, eff)"
      by (simp add: bindE_def)
    show ?thesis
      by (cases "mapProperty ev ps p (node, ns, eff)") (simp_all add: mapInOrder_def b foldl_Inl)
  qed
  show ?case
    unfolding s
    by (simp add: mapProperty_def Cons.IH
          split: option.splits found.splits sum.splits prod.splits)
qed

lemma keys_objectOf_aux:
  assumes "distinct (map fst kvs)" "\<forall>k\<in>set (map fst kvs). arrayIndex k = None"
      and "set (map fst kvs) \<inter> set (map fst acc) = {}"
  shows "map fst (foldl (\<lambda>ps kv. put ps (fst kv) (snd kv)) acc kvs) = map fst acc @ map fst kvs"
  using assms
proof (induction kvs arbitrary: acc)
  case Nil
  then show ?case by simp
next
  case (Cons kv kvs)
  have n: "\<not> hasOwn acc (fst kv)"
    using Cons.prems(3) by (auto simp: hasOwn_def map_of_eq_None_iff)
  have p: "put acc (fst kv) (snd kv) = acc @ [(fst kv, snd kv)]"
    using n Cons.prems(2) by (simp add: put_new)
  have "map fst (foldl (\<lambda>ps kv. put ps (fst kv) (snd kv)) (acc @ [(fst kv, snd kv)]) kvs)
          = map fst (acc @ [(fst kv, snd kv)]) @ map fst kvs"
    using Cons.prems by (intro Cons.IH) auto
  then show ?case by (simp add: p)
qed

lemma keys_objectOf:
  assumes "distinct (map fst kvs)" "\<forall>k\<in>set (map fst kvs). arrayIndex k = None"
  shows "keysOf (objectOf kvs) = map fst kvs"
  using keys_objectOf_aux [OF assms, of "[]"] by (simp add: keysOf_def objectOf_def)

text \<open>
  Claim C9, as amended. Let \<open>ps\<close> be the own properties of an object value, under distinct names in
  the order \<^verbatim>\<open>Object.keys\<close> enumerates them, and let the descriptor in force declare
  the element names \<open>elementNames eff\<close>. \<^verbatim>\<open>_sortKeys\<close> returns the names that match a
  declared element name first, by the place of the declaration, then all remaining
  names in the order of \<^verbatim>\<open>Object.keys\<close>. The loop of \<^verbatim>\<open>mapObject\<close> maps the properties
  one after the other in the order of the list it is given, each round serializing one
  property under its child descriptor and skipping the attributes-key; so
  \<^verbatim>\<open>mapObject\<close>, on an object, maps the properties in the order of \<^verbatim>\<open>_sortKeys\<close> and
  then adds the attributes. The order of \<^verbatim>\<open>Object.keys\<close> is the order in which the
  properties were written when no name is an array index.
\<close>

theorem property_order:
  assumes "distinct (keysOf ps)"
  shows "sortKeys (keysOf ps) (elementNames eff) = declaredFirst (keysOf ps) (elementNames eff)
     \<and> mapNames ev node ns eff ps names = mapInOrder ev ps names (node, ns, eff)
     \<and> mapProperty ev ps (attributesKey (e_options ev)) (node, ns, eff) = Inr (node, ns, eff)
     \<and> (getXsiType ev attrs = Inr xsiType
          \<and> eff = (case xsiType of Some x \<Rightarrow> Some x | None \<Rightarrow> dopt) \<and> tablesOK eff \<longrightarrow>
        mapObject ev node ns dopt (VObj ps) attrs
          = bindE (mapInOrder ev ps (declaredFirst (keysOf ps) (elementNames eff)) (node, ns, eff))
              (\<lambda>(n1, ns1, eff1).
                 bindE (addAttributes ev n1 ns1 eff1 attrs)
                   (\<lambda>(n2, ns2). Inr (n2, ns2, case xsiType of Some x \<Rightarrow> dopt | None \<Rightarrow> eff1))))
     \<and> (distinct (map fst kvs) \<and> (\<forall>k\<in>set (map fst kvs). arrayIndex k = None) \<longrightarrow>
          keysOf (objectOf kvs) = map fst kvs)"
proof -
  have a: "sortKeys (keysOf ps) (elementNames eff) = declaredFirst (keysOf ps) (elementNames eff)"
    by (rule sortKeys_declaredFirst [OF assms])
  have b: "mapNames ev node ns eff ps names = mapInOrder ev ps names (node, ns, eff)"
    by (rule mapNames_mapInOrder)
  have c: "mapProperty ev ps (attributesKey (e_options ev)) (node, ns, eff) = Inr (node, ns, eff)"
    by (simp add: mapProperty_def)
  have d: "mapObject ev node ns dopt (VObj ps) attrs
          = bindE (mapInOrder ev ps (declaredFirst (keysOf ps) (elementNames eff)) (node, ns, eff))
              (\<lambda>(n1, ns1, eff1).
                 bindE (addAttributes ev n1 ns1 eff1 attrs)
                   (\<lambda>(n2, ns2). Inr (n2, ns2, case xsiType of Some x \<Rightarrow> dopt | None \<Rightarrow> eff1)))"
    if "getXsiType ev attrs = Inr xsiType"
       "eff = (case xsiType of Some x \<Rightarrow> Some x | None \<Rightarrow> dopt)" "tablesOK eff"
    using that a
    by (simp add: mapObject.simps vnullish_def Let_def mapNames_mapInOrder bindE_def
          split: sum.splits prod.splits)
  have e: "distinct (map fst kvs) \<and> (\<forall>k\<in>set (map fst kvs). arrayIndex k = None) \<longrightarrow>
          keysOf (objectOf kvs) = map fst kvs"
    using keys_objectOf by blast
  from a b c d e show ?thesis by blast
qed


theorem property_order_witness:
  "sortKeys [''z'', ''$attributes'', ''b'', ''a''] [''a'', ''b'']
     = [''a'', ''b'', ''z'', ''$attributes'']
   \<and> documentAfter
       (mapObject plainEnv (XElem ''r'' [] []) []
          (Some (TypeDescriptor
             [ElementDescriptor \<lparr>nsURI = [], name = ''a'', prefix = []\<rparr> None ''unqualified''
                False False True JsAbsent [] [] None,
              ElementDescriptor \<lparr>nsURI = [], name = ''b'', prefix = []\<rparr> None ''unqualified''
                False False True JsAbsent [] [] None] []))
          (VObj [(''z'', VStr ''1''), (''$attributes'', VObj [(''k'', VStr ''v'')]),
                 (''b'', VStr ''2''), (''a'', VStr ''3'')])
          VUndefined)
     = Inr (XElem ''r'' []
              [XChild (XElem ''a'' [] [XText ''3'']), XChild (XElem ''b'' [] [XText ''2'']),
               XChild (XElem ''z'' [] [XText ''1''])])
   \<and> keysOf (objectOf [(''z'', VStr ''1''), (''b'', VStr ''2'')]) = [''z'', ''b'']"
proof -
  let ?ps = "[(''z'', VStr ''1''), (''$attributes'', VObj [(''k'', VStr ''v'')]),
              (''b'', VStr ''2''), (''a'', VStr ''3'')]"
  let ?da = "ElementDescriptor \<lparr>nsURI = [], name = ''a'', prefix = []\<rparr> None ''unqualified''
               False False True JsAbsent [] [] None"
  let ?db = "ElementDescriptor \<lparr>nsURI = [], name = ''b'', prefix = []\<rparr> None ''unqualified''
               False False True JsAbsent [] [] None"
  let ?eff = "Some (TypeDescriptor [?da, ?db] [])"
  let ?r = "XElem ''r'' [] []"
  let ?kvs = "[(''z'', VStr ''1''), (''b'', VStr ''2'')]"
  let ?doc = "XElem ''r'' []
              [XChild (XElem ''a'' [] [XText ''3'']), XChild (XElem ''b'' [] [XText ''2'']),
               XChild (XElem ''z'' [] [XText ''1''])]"
  have d: "distinct (keysOf ?ps)" by (simp add: keysOf_def)
  have k: "keysOf ?ps = [''z'', ''$attributes'', ''b'', ''a'']" by (simp add: keysOf_def)
  have e: "elementNames ?eff = [''a'', ''b'']" by (simp add: elementNames_def)
  have f: "declaredFirst [''z'', ''$attributes'', ''b'', ''a''] [''a'', ''b'']
             = [''a'', ''b'', ''z'', ''$attributes'']"
    by code_simp
  have g: "getXsiType plainEnv VUndefined = Inr None" by (simp add: getXsiType_def)
  have c: "?eff = (case (None :: descriptor option) of Some x \<Rightarrow> Some x | None \<Rightarrow> ?eff)" by simp
  have tb: "tablesOK ?eff" by (simp add: tablesOK_def)
  have q: "distinct (map fst ?kvs) \<and> (\<forall>k\<in>set (map fst ?kvs). arrayIndex k = None)"
    by (simp add: arrayIndex_def)
  note T = property_order [OF d, where eff = ?eff and ev = plainEnv and node = ?r and ns = "[]"
             and attrs = VUndefined and xsiType = None and dopt = ?eff and kvs = ?kvs]
  have s: "sortKeys [''z'', ''$attributes'', ''b'', ''a''] [''a'', ''b'']
             = [''a'', ''b'', ''z'', ''$attributes'']"
    using T [THEN conjunct1] unfolding k e f .
  have m: "mapObject plainEnv ?r [] ?eff (VObj ?ps) VUndefined
          = bindE (mapInOrder plainEnv ?ps [''a'', ''b'', ''z'', ''$attributes''] (?r, [], ?eff))
              (\<lambda>(n1, ns1, eff1).
                 bindE (addAttributes plainEnv n1 ns1 eff1 VUndefined)
                   (\<lambda>(n2, ns2). Inr (n2, ns2, case (None :: descriptor option) of
                                                  Some x \<Rightarrow> ?eff | None \<Rightarrow> eff1)))"
    using T [THEN conjunct2, THEN conjunct2, THEN conjunct2, THEN conjunct1, THEN mp,
             OF conjI [OF g conjI [OF c tb]]]
    unfolding k e f .
  have r: "documentAfter
             (bindE (mapInOrder plainEnv ?ps [''a'', ''b'', ''z'', ''$attributes''] (?r, [], ?eff))
              (\<lambda>(n1, ns1, eff1).
                 bindE (addAttributes plainEnv n1 ns1 eff1 VUndefined)
                   (\<lambda>(n2, ns2). Inr (n2, ns2, case (None :: descriptor option) of
                                                  Some x \<Rightarrow> ?eff | None \<Rightarrow> eff1))))
           = Inr ?doc"
    by code_simp
  have o: "keysOf (objectOf ?kvs) = [''z'', ''b'']"
    using T [THEN conjunct2, THEN conjunct2, THEN conjunct2, THEN conjunct2, THEN mp, OF q]
    by simp
  show ?thesis
    by (intro conjI) (fact s, simp only: m r, fact o)
qed

text \<open>
  An object whose properties were written in the order \<open>c\<close>, \<open>b\<close>, \<open>10\<close>, \<open>9\<close>, serialized
  with no descriptor: no name matches a declared element, and the properties are
  iterated, and their elements written, in the order \<open>9\<close>, \<open>10\<close>, \<open>c\<close>, \<open>b\<close>, which is
  not the order of their insertion.
\<close>

theorem property_order_counterexample:
  "keysOf (objectOf [(''c'', VStr ''1''), (''b'', VStr ''2''), (''10'', VStr ''3''),
                     (''9'', VStr ''4'')])
     = [''9'', ''10'', ''c'', ''b'']
   \<and> sortKeys (keysOf (objectOf [(''c'', VStr ''1''), (''b'', VStr ''2''), (''10'', VStr ''3''),
                                 (''9'', VStr ''4'')])) []
     = [''9'', ''10'', ''c'', ''b'']
   \<and> documentAfter
       (jsonToXml plainEnv (XElem ''r'' [] []) [] None
          (VObj (objectOf [(''c'', VStr ''1''), (''b'', VStr ''2''), (''10'', VStr ''3''),
                           (''9'', VStr ''4'')])))
     = Inr (XElem ''r'' []
              [XChild (XElem ''9'' [] [XText ''4'']), XChild (XElem ''10'' [] [XText ''3'']),
               XChild (XElem ''c'' [] [XText ''1'']), XChild (XElem ''b'' [] [XText ''2''])])"
  by code_simp


section \<open>The nillable round trip\<close>

lemma createElement_null:
  assumes "enforce ev d VNull = Inr VNull"
  shows "createElement ev d n VNull = Inr (XElem n [] [], VNull)"
  using assms
  by (simp add: createElement_def bindE_def vnullish_def toXmlDateOrTime_def addText_def
        split: option.splits)

lemma takeWhile_colon:
  "CHR '':'' \<notin> set n \<Longrightarrow> takeWhile (\<lambda>c. c \<noteq> CHR '':'') (rev n @ CHR '':'' # r) = rev n"
  by (subst takeWhile_append2) auto

lemma name_QName_parse:
  "CHR '':'' \<notin> set n \<Longrightarrow> name (QName_parse (p @ CHR '':'' # n)) = n"
  "CHR '':'' \<notin> set n \<Longrightarrow> name (QName_parse n) = n"
  by (simp_all add: QName_parse_def takeWhile_colon)

lemma getPrefixMapping_push: "getPrefixMapping (pushContext ns) u = getPrefixMapping ns u"
  by (simp add: getPrefixMapping_def pushContext_def)

lemma resolveName_result:
  assumes "resolveName ev ns d = (en, xmlns, ns1)"
  shows "ns1 \<noteq> []"
    and "CHR '':'' \<notin> set (name (d_qname d)) \<Longrightarrow> name (QName_parse en) = name (d_qname d)"
    and "xmlns = Some x \<Longrightarrow> isXmlns x"
  using assms
  by (auto simp: resolveName_def Let_def pushContext_def nsDeclare_def isXmlns_def
        name_QName_parse
        split: if_splits option.splits prod.splits)

lemma keys_put: "fst ` set (put ps k v) = insert k (fst ` set ps)"
proof -
  have "dom (map_of (put ps k v)) = insert k (dom (map_of ps))"
    by (auto simp: map_of_put dom_def)
  then show ?thesis by (simp add: dom_map_of_conv_image_fst)
qed

lemma distinct_insertIndex:
  "distinct (map fst ps) \<Longrightarrow> k \<notin> fst ` set ps \<Longrightarrow> distinct (map fst (insertIndex n k v ps))"
proof (induction ps)
  case Nil
  then show ?case by simp
next
  case (Cons p ps)
  obtain k' v' where p: "p = (k', v')" by (cases p)
  from Cons.prems have "map_of ps k = None" by (simp add: map_of_eq_None_iff)
  then have "dom (map_of (insertIndex n k v ps)) = insert k (dom (map_of ps))"
    by (auto simp: map_of_insertIndex dom_def)
  then have "fst ` set (insertIndex n k v ps) = insert k (fst ` set ps)"
    by (simp add: dom_map_of_conv_image_fst)
  with Cons show ?case
    by (auto simp: p split: option.splits)
qed

lemma distinct_put: "distinct (map fst ps) \<Longrightarrow> distinct (map fst (put ps k v))"
proof -
  have m: "map (fst \<circ> (\<lambda>p. if fst p = k then (k, v) else p)) ps = map fst ps"
    by (induction ps) auto
  have n: "\<not> hasOwn ps k \<Longrightarrow> k \<notin> fst ` set ps"
    by (simp add: hasOwn_def map_of_eq_None_iff)
  show "distinct (map fst ps) \<Longrightarrow> distinct (map fst (put ps k v))"
    using n by (auto simp: put_def m distinct_insertIndex split: option.splits)
qed

lemma nsDeclare_some:
  assumes "ns \<noteq> []" "p \<noteq> []"
  shows "\<exists>m ns1. nsDeclare ev ns p u = (Some m, ns1)
           \<and> (getPrefixMapping ns u = None \<longrightarrow> m = (p, u, True))"
  using assms by (cases ns) (auto simp: nsDeclare_def Let_def split: option.splits)

lemma declareElement_null:
  assumes "isNillable d" "ns \<noteq> []"
      and "\<forall>x. xmlns = Some x \<longrightarrow> isXmlns x"
  shows "\<exists>el ns1. declareElement ev ns d xmlns (XElem n [] []) VNull = (el, ns1)
     \<and> x_name el = n \<and> x_children el = []
     \<and> distinct (map fst (x_attrs el))
     \<and> map_of (x_attrs el) ''xsi:nil'' = Some ''true''
     \<and> (getPrefixMapping ns xsi = None \<longrightarrow> map_of (x_attrs el) ''xmlns:xsi'' = Some xsi)
     \<and> (\<forall>k\<in>fst ` set (x_attrs el). isXmlns k \<or> k = ''xsi:nil'')"
proof -
  obtain m ns1 where nd: "nsDeclare ev ns ''xsi'' xsi = (Some m, ns1)"
    and new: "getPrefixMapping ns xsi = None \<longrightarrow> m = (''xsi'', xsi, True)"
    using nsDeclare_some [OF assms(2), of "''xsi''" ev xsi] by auto
  define as0 where "as0 = (case xmlns of
                   None \<Rightarrow> []
                 | Some x \<Rightarrow> if nsURI (d_qname d) \<noteq> [] then put [] x (nsURI (d_qname d)) else [])"
  define el where
    "el = XElem n (put (put as0 (''xmlns:'' @ fst m) (fst (snd m))) ''xsi:nil'' ''true'') []"
  have a: "declareElement ev ns d xmlns (XElem n [] []) VNull = (el, ns1)"
    using assms(1) unfolding as0_def el_def
    by (auto simp: declareElement_def Let_def vnullish_def declareNamespace_def nd
          split: option.splits)
  have "distinct (map fst as0)" "\<forall>k\<in>fst ` set as0. isXmlns k"
    using assms(3) by (auto simp: as0_def put_empty split: option.splits)
  then have b: "distinct (map fst (x_attrs el))"
      "\<forall>k\<in>fst ` set (x_attrs el). isXmlns k \<or> k = ''xsi:nil''"
    by (auto simp: el_def distinct_put keys_put isXmlns_def)
  have c: "x_name el = n" "x_children el = []"
    "map_of (x_attrs el) ''xsi:nil'' = Some ''true''"
    by (simp_all add: el_def map_of_put)
  have e: "getPrefixMapping ns xsi = None \<longrightarrow> map_of (x_attrs el) ''xmlns:xsi'' = Some xsi"
    using new by (auto simp: el_def map_of_put)
  show ?thesis
    by (intro exI conjI) (fact a, fact c(1), fact c(2), fact b(1), fact c(3), fact e, fact b(2))
qed

lemma jsonToXml_null:
  assumes "isElementDescriptor d" "isNillable d" "enforce ev d VNull = Inr VNull"
  shows "\<exists>el ns'. jsonToXml ev node ns (Some d) VNull = Inr (appendChild node (XChild el), ns', Some d)
     \<and> (CHR '':'' \<notin> set (name (d_qname d))
          \<longrightarrow> name (QName_parse (x_name el)) = name (d_qname d))
     \<and> x_children el = []
     \<and> distinct (map fst (x_attrs el))
     \<and> map_of (x_attrs el) ''xsi:nil'' = Some ''true''
     \<and> (getPrefixMapping (elementScopes ev ns d) xsi = None
          \<longrightarrow> map_of (x_attrs el) ''xmlns:xsi'' = Some xsi)
     \<and> (\<forall>k\<in>fst ` set (x_attrs el). isXmlns k \<or> k = ''xsi:nil'')"
proof -
  obtain en xmlns ns1 where rn: "resolveName ev ns d = (en, xmlns, ns1)"
    by (cases "resolveName ev ns d") auto
  note r = resolveName_result [OF rn]
  have x: "\<forall>x. xmlns = Some x \<longrightarrow> isXmlns x" using r(3) by blast
  have es: "elementScopes ev ns d = ns1" by (simp add: elementScopes_def rn)
  from declareElement_null [OF assms(2) r(1) x, of ev en]
  obtain el ns2 where de: "declareElement ev ns1 d xmlns (XElem en [] []) VNull = (el, ns2)"
    and el: "x_name el = en" "x_children el = []" "distinct (map fst (x_attrs el))"
       "map_of (x_attrs el) ''xsi:nil'' = Some ''true''"
       "getPrefixMapping ns1 xsi = None \<longrightarrow> map_of (x_attrs el) ''xmlns:xsi'' = Some xsi"
       "\<forall>k\<in>fst ` set (x_attrs el). isXmlns k \<or> k = ''xsi:nil''"
    by (elim exE conjE) (rule that; assumption)
  have oe: "openElement ev ns d VNull = Inr (VNull, el, ns2, VNull)"
    by (simp add: openElement_def splitValue_def rn createElement_null [OF assms(3)] bindE_def de)
  from assms(1) have na: "\<not> isAttributeDescriptor d" by (cases d) auto
  have "jsonToXml ev node ns (Some d) VNull
          = Inr (appendChild node (XChild el), popContext ns2, Some d)"
    using assms(1) na
    by (simp add: jsonToXml.simps [of ev node ns "Some d" VNull] manyItems_def oe
          closeSimple_def bindE_def applyInheritance_def vnullish_def
          mapObject.simps [of ev el ns2 "Some d" VNull VNull])
  then have j: "jsonToXml ev node ns (Some d) VNull
          = Inr (appendChild node (XChild el), popContext ns2, Some d)" .
  have nm: "CHR '':'' \<notin> set (name (d_qname d))
          \<longrightarrow> name (QName_parse (x_name el)) = name (d_qname d)"
    using r(2) el(1) by simp
  have dx: "getPrefixMapping (elementScopes ev ns d) xsi = None
          \<longrightarrow> map_of (x_attrs el) ''xmlns:xsi'' = Some xsi"
    using el(5) es by simp
  show ?thesis
    by (intro exI conjI) (fact j, fact nm, fact el(2), fact el(3), fact el(4), fact dx, fact el(6))
qed

lemma registerNamespaces_step:
  "registerNamespaces ns (attrs @ [(a, v)]) =
     (if isXmlns a
      then addNamespace (registerNamespaces ns attrs) (if a = ''xmlns'' then [] else drop 6 a) v
      else registerNamespaces ns attrs)"
  by (simp add: registerNamespaces_def)

lemma registerNamespaces_frame:
  "\<exists>f'. registerNamespaces (f # fs) attrs = f' # fs"
  by (induction attrs rule: rev_induct)
     (auto simp: registerNamespaces_step addNamespace_def, simp add: registerNamespaces_def)

lemma isXmlns_prefix:
  assumes "isXmlns a" "p \<noteq> []"
  shows "(if a = ''xmlns'' then [] else drop 6 a) = p \<longleftrightarrow> a = ''xmlns:'' @ p"
proof (cases "a = ''xmlns''")
  case True
  with assms show ?thesis by auto
next
  case False
  with assms have "take 6 a = ''xmlns:''" by (simp add: isXmlns_def)
  then have "a = ''xmlns:'' @ drop 6 a" by (metis append_take_drop_id)
  with False show ?thesis by auto
qed

lemma getNamespaceURI_register:
  assumes "p \<noteq> []"
  shows "getNamespaceURI (registerNamespaces (f # fs) attrs) p =
     (case map_of (rev attrs) (''xmlns:'' @ p) of
        Some u \<Rightarrow> Some u
      | None \<Rightarrow> getNamespaceURI (f # fs) p)"
proof (induction attrs rule: rev_induct)
  case Nil
  then show ?case by (simp add: registerNamespaces_def)
next
  case (snoc av attrs)
  obtain a v where av: "av = (a, v)" by (cases av)
  obtain f' where f': "registerNamespaces (f # fs) attrs = f' # fs"
    using registerNamespaces_frame by blast
  show ?case
  proof (cases "isXmlns a")
    case True
    from isXmlns_prefix [OF True assms]
    show ?thesis using snoc True
      by (auto simp: av registerNamespaces_step f' addNamespace_def getNamespaceURI_def)
  next
    case False
    then have "a \<noteq> ''xmlns:'' @ p" by (auto simp: isXmlns_def)
    with snoc False show ?thesis
      by (simp add: av registerNamespaces_step)
  qed
qed

lemma attrLoop_null:
  assumes "\<forall>av\<in>set attrs. isXmlns (fst av) \<or> isNilAttr ns (fst av)"
  shows "attrLoop opts ns attrs (obj, None, h) =
     Inr (if \<exists>av\<in>set attrs. isNilAttr ns (fst av) \<and> snd av = ''true'' then JNull else obj,
          None, h)"
  using assms
proof (induction attrs arbitrary: obj)
  case Nil
  then show ?case by simp
next
  case (Cons av attrs)
  obtain a v where av: "av = (a, v)" by (cases av)
  from Cons.prems have "isXmlns a \<or> isNilAttr ns a" by (simp add: av)
  then show ?case
  proof
    assume x: "isXmlns a"
    with Cons show ?thesis
      by (auto simp: av attrStep_xmlns bindE_def attr_kinds_excl)
  next
    assume n: "isNilAttr ns a"
    with Cons show ?thesis
      by (auto simp: av attrStep_nil bindE_def)
  qed
qed



lemma parserScopes_declared:
  assumes "distinct (map fst attrs)" "map_of attrs ''xmlns:xsi'' = Some xsi"
  shows "getNamespaceURI (parserScopes s attrs) ''xsi'' = Some xsi"
proof -
  have mr: "map_of (rev attrs) = map_of attrs"
    using assms(1) by (intro map_of_inject_set [THEN iffD2]) (simp_all add: rev_map [symmetric])
  show ?thesis
    using getNamespaceURI_register [of "''xsi''" "[]" "p_ns s" attrs] assms(2)
    by (simp add: parserScopes_def pushContext_def mr)
qed

lemma open_null:
  assumes "p_stack s = topf # below"
      and "name (QName_parse nsName) = n"
      and "map_of attrs ''xsi:nil'' = Some ''true''"
      and "getNamespaceURI (parserScopes s attrs) ''xsi'' = Some xsi"
      and "\<forall>k\<in>fst ` set attrs. isXmlns k \<or> k = ''xsi:nil''"
  shows "onopentag opts s nsName attrs =
     Inr \<lparr>p_heap = p_heap s,
          p_stack = \<lparr>f_name = Some n, f_object = JNull,
                     f_descriptor = (case f_descriptor topf of None \<Rightarrow> None
                                     | Some D \<Rightarrow> findElement D n),
                     f_id = None\<rparr> # topf # below,
          p_refs = p_refs s, p_ns = parserScopes s attrs\<rparr>"
proof -
  define ns where "ns = parserScopes s attrs"
  from assms(4) have nil: "isNilAttr ns ''xsi:nil''"
    by (simp add: isNilAttr_def isXmlns_def QName_parse_def ns_def)
  have all: "\<forall>av\<in>set attrs. isXmlns (fst av) \<or> isNilAttr ns (fst av)"
    using assms(5) nil by auto
  have ex: "\<exists>av\<in>set attrs. isNilAttr ns (fst av) \<and> snd av = ''true''"
    using map_of_SomeD [OF assms(3)] nil by force
  have eo: "elementObject opts ns attrs (p_heap s) = Inr (JNull, p_heap s)"
    using attrLoop_null [OF all, of opts JUndefined "p_heap s"] ex
    by (simp add: elementObject_def bindE_def seedObject_def)
  have "\<not> (isXmlns ''href'' \<or> ''href'' = ''xsi:nil'')" "\<not> (isXmlns ''id'' \<or> ''id'' = ''xsi:nil'')"
    by (simp_all add: isXmlns_def)
  with assms(5) have "''href'' \<notin> fst ` set attrs" "''id'' \<notin> fst ` set attrs"
    by blast+
  then have nk: "map_of attrs ''href'' = None" "map_of attrs ''id'' = None"
    by (simp_all add: map_of_eq_None_iff)
  show ?thesis
    using assms(1,2) eo nk
    by (simp add: onopentag_def Let_def bindE_def ns_def parserScopes_def [symmetric])
qed

lemma popContext_parserScopes: "popContext (parserScopes s attrs) = p_ns s"
  using registerNamespaces_frame [of "[]" "p_ns s" attrs]
  by (auto simp: parserScopes_def pushContext_def popContext_def)

lemma open_close_null:
  assumes "p_stack s = topf # below" "f_object topf = JRef a"
      and "a < length (p_heap s)" "p_heap s ! a = HObj ps"
      and "name (QName_parse nsName) = n" "\<not> js_in ps n"
      and "map_of attrs ''xsi:nil'' = Some ''true''"
      and "getNamespaceURI (parserScopes s attrs) ''xsi'' = Some xsi"
      and "\<forall>k\<in>fst ` set attrs. isXmlns k \<or> k = ''xsi:nil''"
  shows "run opts s [OpenTag nsName attrs, CloseTag nsName] =
     Inr (s\<lparr>p_heap :=
              (if isManyOf (case f_descriptor topf of None \<Rightarrow> None | Some D \<Rightarrow> findElement D n)
               then (p_heap s @ [HArr [JNull]])[a := HObj (put ps n (JRef (length (p_heap s))))]
               else (p_heap s)[a := HObj (put ps n JNull)])\<rparr>)"
proof -
  define cd where "cd = (case f_descriptor topf of None \<Rightarrow> None | Some D \<Rightarrow> findElement D n)"
  define cur where "cur = \<lparr>f_name = Some n, f_object = JNull, f_descriptor = cd, f_id = None\<rparr>"
  define s1 where "s1 = \<lparr>p_heap = p_heap s, p_stack = cur # topf # below,
                           p_refs = p_refs s, p_ns = parserScopes s attrs\<rparr>"
  have o: "onopentag opts s nsName attrs = Inr s1"
    unfolding open_null [OF assms(1,5,7,8,9)] s1_def cur_def cd_def ..
  from assms(6) have np: "n \<noteq> ''__proto__''" by (auto simp: js_in_def objectPrototype_def)
  have st: "p_stack s1 = cur # topf # below" "a < length (p_heap s1)" "p_heap s1 ! a = HObj ps"
    "f_id cur = None"
    using assms(3,4) by (simp_all add: s1_def cur_def)
  have c: "onclosetag opts s1 nsName =
     Inr (s\<lparr>p_heap :=
              (if isManyOf cd
               then (p_heap s @ [HArr [JNull]])[a := HObj (put ps n (JRef (length (p_heap s))))]
               else (p_heap s)[a := HObj (put ps n JNull)])\<rparr>)"
    unfolding onclosetag_object [OF st(1) assms(2) st(2,3) assms(5) np st(4)]
    using assms(1,6)
    by (simp add: mergeChild_object [OF assms(3,4) np] bindE_def s1_def cur_def
          popContext_parserScopes)
  show ?thesis
    by (simp add: step_def bindE_def o c cd_def)
qed

lemma open_close_null_fresh:
  assumes "p_stack s = topf # below" "f_object topf = JUndefined"
      and "name (QName_parse nsName) = n" "n \<notin> set objectPrototype"
      and "map_of attrs ''xsi:nil'' = Some ''true''"
      and "getNamespaceURI (parserScopes s attrs) ''xsi'' = Some xsi"
      and "\<forall>k\<in>fst ` set attrs. isXmlns k \<or> k = ''xsi:nil''"
  shows "run opts s [OpenTag nsName attrs, CloseTag nsName] =
     Inr (s\<lparr>p_heap :=
              (if isManyOf (case f_descriptor topf of None \<Rightarrow> None | Some D \<Rightarrow> findElement D n)
               then p_heap s @ [HObj [(n, JRef (Suc (length (p_heap s))))], HArr [JNull]]
               else p_heap s @ [HObj [(n, JNull)]]),
            p_stack := topf\<lparr>f_object := JRef (length (p_heap s))\<rparr> # below\<rparr>)"
proof -
  define cd where "cd = (case f_descriptor topf of None \<Rightarrow> None | Some D \<Rightarrow> findElement D n)"
  define cur where "cur = \<lparr>f_name = Some n, f_object = JNull, f_descriptor = cd, f_id = None\<rparr>"
  define s1 where "s1 = \<lparr>p_heap = p_heap s, p_stack = cur # topf # below,
                           p_refs = p_refs s, p_ns = parserScopes s attrs\<rparr>"
  have o: "onopentag opts s nsName attrs = Inr s1"
    unfolding open_null [OF assms(1,3,5,6,7)] s1_def cur_def cd_def ..
  let ?h0 = "p_heap s @ [HObj []]"
  let ?a = "length (p_heap s)"
  have m: "mergeChild ?h0 (JRef ?a) n cur =
     (if isManyOf cd
      then Inr ((?h0 @ [HArr [JNull]])[?a := HObj (put [] n (JRef (length ?h0)))])
      else Inr (?h0[?a := HObj (put [] n JNull)]))"
    using mergeChild_own [of ?a ?h0 "[]" n cur] assms(4) by (simp add: cur_def)
  have c: "onclosetag opts s1 nsName =
     Inr (s\<lparr>p_heap :=
              (if isManyOf cd
               then p_heap s @ [HObj [(n, JRef (Suc (length (p_heap s))))], HArr [JNull]]
               else p_heap s @ [HObj [(n, JNull)]]),
            p_stack := topf\<lparr>f_object := JRef (length (p_heap s))\<rparr> # below\<rparr>)"
    using assms(1,2,3)
    by (simp add: onclosetag_def s1_def Let_def alloc_def m [unfolded cur_def] bindE_def
          put_empty cur_def popContext_parserScopes)
  show ?thesis
    by (simp add: step_def bindE_def o c cd_def)
qed

lemma tokens_empty:
  "x_children el = [] \<Longrightarrow> tokens el = Inr [OpenTag (x_name el) (x_attrs el), CloseTag (x_name el)]"
  by (cases el) (simp add: bindE_def)

text \<open>
  Claim C4, as amended. Let \<open>d\<close> be a nillable element descriptor, and let no
  restriction change \<^verbatim>\<open>null\<close>. Serializing \<^verbatim>\<open>null\<close> under \<open>d\<close> returns, leaves the
  descriptor as it is and appends one element with no content that carries
  \<^verbatim>\<open>xsi:nil="true"\<close> and otherwise namespace declarations only; its local name is the
  name of \<open>d\<close> when that has no colon; and it carries the declaration \<^verbatim>\<open>xmlns:xsi\<close> of
  the XML-Schema-Instance namespace when that namespace and the prefix \<open>xsi\<close> are both
  unbound in the scopes of the element, in which case the prefix \<open>xsi\<close> resolves to that
  namespace in the scopes of the element wherever it is read. The tokenizer reads the
  element as an open tag and a close tag. Reading these, in scopes where the prefix
  \<open>xsi\<close> resolves to the XML-Schema-Instance namespace, into a parent that has no object
  yet or an object without the key of the element (own or inherited), gives the parent
  the key with the value \<^verbatim>\<open>null\<close>, and with the array \<^verbatim>\<open>[null]\<close> when the descriptor
  the parent frame finds for the key is repeatable; nothing else changes. No empty
  object is made for the element.
\<close>

theorem nillable_round_trip:
  assumes "isElementDescriptor d" "isNillable d"
      and "enforce ev d VNull = Inr VNull"
      and "p_stack s = topf # below"
  shows "\<exists>el ns' n.
      jsonToXml ev node ns (Some d) VNull = Inr (appendChild node (XChild el), ns', Some d)
    \<and> x_children el = []
    \<and> map_of (x_attrs el) ''xsi:nil'' = Some ''true''
    \<and> (\<forall>k\<in>set (map fst (x_attrs el)). isXmlns k \<or> k = ''xsi:nil'')
    \<and> n = name (QName_parse (x_name el))
    \<and> (CHR '':'' \<notin> set (name (d_qname d)) \<longrightarrow> n = name (d_qname d))
    \<and> (getPrefixMapping (elementScopes ev ns d) xsi = None
        \<and> getNamespaceURI (elementScopes ev ns d) ''xsi'' = None \<longrightarrow>
          map_of (x_attrs el) ''xmlns:xsi'' = Some xsi
          \<and> getNamespaceURI (parserScopes s (x_attrs el)) ''xsi'' = Some xsi)
    \<and> tokens el = Inr [OpenTag (x_name el) (x_attrs el), CloseTag (x_name el)]
    \<and> (getNamespaceURI (parserScopes s (x_attrs el)) ''xsi'' = Some xsi \<longrightarrow>
         (\<forall>a ps. f_object topf = JRef a \<and> a < length (p_heap s) \<and> p_heap s ! a = HObj ps
                  \<and> \<not> js_in ps n \<longrightarrow>
            run opts s [OpenTag (x_name el) (x_attrs el), CloseTag (x_name el)] =
              Inr (s\<lparr>p_heap :=
                       (if isManyOf (case f_descriptor topf of
                                       None \<Rightarrow> None | Some D \<Rightarrow> findElement D n)
                        then (p_heap s @ [HArr [JNull]])
                               [a := HObj (put ps n (JRef (length (p_heap s))))]
                        else (p_heap s)[a := HObj (put ps n JNull)])\<rparr>))
         \<and> (f_object topf = JUndefined \<and> n \<notin> set objectPrototype \<longrightarrow>
            run opts s [OpenTag (x_name el) (x_attrs el), CloseTag (x_name el)] =
              Inr (s\<lparr>p_heap :=
                       (if isManyOf (case f_descriptor topf of
                                       None \<Rightarrow> None | Some D \<Rightarrow> findElement D n)
                        then p_heap s @ [HObj [(n, JRef (Suc (length (p_heap s))))], HArr [JNull]]
                        else p_heap s @ [HObj [(n, JNull)]]),
                     p_stack := topf\<lparr>f_object := JRef (length (p_heap s))\<rparr> # below\<rparr>)))"
proof -
  from jsonToXml_null [OF assms(1-3), of node ns]
  obtain el ns' where
    j: "jsonToXml ev node ns (Some d) VNull = Inr (appendChild node (XChild el), ns', Some d)"
    and nm: "CHR '':'' \<notin> set (name (d_qname d))
          \<longrightarrow> name (QName_parse (x_name el)) = name (d_qname d)"
    and el: "x_children el = []"
      "distinct (map fst (x_attrs el))"
      "map_of (x_attrs el) ''xsi:nil'' = Some ''true''"
    and dx: "getPrefixMapping (elementScopes ev ns d) xsi = None
          \<longrightarrow> map_of (x_attrs el) ''xmlns:xsi'' = Some xsi"
    and ks: "\<forall>k\<in>fst ` set (x_attrs el). isXmlns k \<or> k = ''xsi:nil''"
    by (elim exE conjE) (rule that; assumption)
  define n where "n = name (QName_parse (x_name el))"
  have ks': "\<forall>k\<in>set (map fst (x_attrs el)). isXmlns k \<or> k = ''xsi:nil''"
    using ks by simp
  have nm': "CHR '':'' \<notin> set (name (d_qname d)) \<longrightarrow> n = name (d_qname d)"
    using nm by (simp add: n_def)
  have dx': "getPrefixMapping (elementScopes ev ns d) xsi = None
        \<and> getNamespaceURI (elementScopes ev ns d) ''xsi'' = None \<longrightarrow>
          map_of (x_attrs el) ''xmlns:xsi'' = Some xsi
          \<and> getNamespaceURI (parserScopes s (x_attrs el)) ''xsi'' = Some xsi"
    using dx parserScopes_declared [OF el(2)] by blast
  note t = tokens_empty [OF el(1)]
  have p: "getNamespaceURI (parserScopes s (x_attrs el)) ''xsi'' = Some xsi \<longrightarrow>
         (\<forall>a ps. f_object topf = JRef a \<and> a < length (p_heap s) \<and> p_heap s ! a = HObj ps
                  \<and> \<not> js_in ps n \<longrightarrow>
            run opts s [OpenTag (x_name el) (x_attrs el), CloseTag (x_name el)] =
              Inr (s\<lparr>p_heap :=
                       (if isManyOf (case f_descriptor topf of
                                       None \<Rightarrow> None | Some D \<Rightarrow> findElement D n)
                        then (p_heap s @ [HArr [JNull]])
                               [a := HObj (put ps n (JRef (length (p_heap s))))]
                        else (p_heap s)[a := HObj (put ps n JNull)])\<rparr>))
         \<and> (f_object topf = JUndefined \<and> n \<notin> set objectPrototype \<longrightarrow>
            run opts s [OpenTag (x_name el) (x_attrs el), CloseTag (x_name el)] =
              Inr (s\<lparr>p_heap :=
                       (if isManyOf (case f_descriptor topf of
                                       None \<Rightarrow> None | Some D \<Rightarrow> findElement D n)
                        then p_heap s @ [HObj [(n, JRef (Suc (length (p_heap s))))], HArr [JNull]]
                        else p_heap s @ [HObj [(n, JNull)]]),
                     p_stack := topf\<lparr>f_object := JRef (length (p_heap s))\<rparr> # below\<rparr>))"
  proof (intro impI conjI allI)
    fix a ps
    assume sc: "getNamespaceURI (parserScopes s (x_attrs el)) ''xsi'' = Some xsi"
      and pa: "f_object topf = JRef a \<and> a < length (p_heap s) \<and> p_heap s ! a = HObj ps
                  \<and> \<not> js_in ps n"
    from pa have pa': "f_object topf = JRef a" "a < length (p_heap s)" "p_heap s ! a = HObj ps"
      "\<not> js_in ps n" by simp_all
    show "run opts s [OpenTag (x_name el) (x_attrs el), CloseTag (x_name el)] =
              Inr (s\<lparr>p_heap :=
                       (if isManyOf (case f_descriptor topf of
                                       None \<Rightarrow> None | Some D \<Rightarrow> findElement D n)
                        then (p_heap s @ [HArr [JNull]])
                               [a := HObj (put ps n (JRef (length (p_heap s))))]
                        else (p_heap s)[a := HObj (put ps n JNull)])\<rparr>)"
      by (rule open_close_null [OF assms(4) pa'(1-3) n_def [symmetric] pa'(4) el(3) sc ks])
  next
    assume sc: "getNamespaceURI (parserScopes s (x_attrs el)) ''xsi'' = Some xsi"
      and pa: "f_object topf = JUndefined \<and> n \<notin> set objectPrototype"
    from pa have pa': "f_object topf = JUndefined" "n \<notin> set objectPrototype" by simp_all
    show "run opts s [OpenTag (x_name el) (x_attrs el), CloseTag (x_name el)] =
              Inr (s\<lparr>p_heap :=
                       (if isManyOf (case f_descriptor topf of
                                       None \<Rightarrow> None | Some D \<Rightarrow> findElement D n)
                        then p_heap s @ [HObj [(n, JRef (Suc (length (p_heap s))))], HArr [JNull]]
                        else p_heap s @ [HObj [(n, JNull)]]),
                     p_stack := topf\<lparr>f_object := JRef (length (p_heap s))\<rparr> # below\<rparr>)"
      by (rule open_close_null_fresh [OF assms(4) pa'(1) n_def [symmetric] pa'(2) el(3) sc ks])
  qed
  show ?thesis
    by (intro exI [of _ el] exI [of _ ns'] exI [of _ n] conjI)
       (fact j, fact el(1), fact el(3), fact ks', fact n_def, fact nm', fact dx', fact t, fact p)
qed


theorem nillable_round_trip_witness:
  "\<exists>el ns'.
      jsonToXml plainEnv (XElem [] [] []) []
        (Some (ElementDescriptor \<lparr>nsURI = [], name = ''a'', prefix = []\<rparr> None ''unqualified''
                 False True True JsAbsent [] [] None)) VNull
        = Inr (appendChild (XElem [] [] []) (XChild el), ns',
               Some (ElementDescriptor \<lparr>nsURI = [], name = ''a'', prefix = []\<rparr> None
                       ''unqualified'' False True True JsAbsent [] [] None))
    \<and> x_children el = []
    \<and> map_of (x_attrs el) ''xsi:nil'' = Some ''true''
    \<and> map_of (x_attrs el) ''xmlns:xsi'' = Some xsi
    \<and> tokens el = Inr [OpenTag (x_name el) (x_attrs el), CloseTag (x_name el)]
    \<and> run defaultOptions (initialState [] None)
         [OpenTag (x_name el) (x_attrs el), CloseTag (x_name el)] =
        Inr ((initialState [] None)\<lparr>p_heap := [HObj [(''a'', JNull)]]\<rparr>)"
proof -
  let ?d = "ElementDescriptor \<lparr>nsURI = [], name = ''a'', prefix = []\<rparr> None ''unqualified''
              False True True JsAbsent [] [] None"
  let ?f = "\<lparr>f_name = None, f_object = JRef 0, f_descriptor = None, f_id = None\<rparr>"
  let ?s = "initialState [] None"
  have h: "isElementDescriptor ?d" "isNillable ?d" "enforce plainEnv ?d VNull = Inr VNull"
    "p_stack ?s = ?f # []"
    by (simp_all add: enforce_def plainEnv_def defaultOptions_def initialState_def)
  have sc: "getPrefixMapping (elementScopes plainEnv [] ?d) xsi = None
        \<and> getNamespaceURI (elementScopes plainEnv [] ?d) ''xsi'' = None"
    by (simp add: elementScopes_def resolveName_def pushContext_def getPrefixMapping_def
          getNamespaceURI_def)
  have nc: "CHR '':'' \<notin> set (name (d_qname ?d))" by simp
  from nillable_round_trip [OF h, of "XElem [] [] []" "[]" defaultOptions]
  obtain el ns' n where
    j: "jsonToXml plainEnv (XElem [] [] []) [] (Some ?d) VNull
          = Inr (appendChild (XElem [] [] []) (XChild el), ns', Some ?d)"
    and c: "x_children el = []" "map_of (x_attrs el) ''xsi:nil'' = Some ''true''"
    and nm: "CHR '':'' \<notin> set (name (d_qname ?d)) \<longrightarrow> n = name (d_qname ?d)"
    and dx: "getPrefixMapping (elementScopes plainEnv [] ?d) xsi = None
        \<and> getNamespaceURI (elementScopes plainEnv [] ?d) ''xsi'' = None \<longrightarrow>
          map_of (x_attrs el) ''xmlns:xsi'' = Some xsi
          \<and> getNamespaceURI (parserScopes ?s (x_attrs el)) ''xsi'' = Some xsi"
    and t: "tokens el = Inr [OpenTag (x_name el) (x_attrs el), CloseTag (x_name el)]"
    and p: "getNamespaceURI (parserScopes ?s (x_attrs el)) ''xsi'' = Some xsi \<longrightarrow>
         (\<forall>a ps. f_object ?f = JRef a \<and> a < length (p_heap ?s) \<and> p_heap ?s ! a = HObj ps
                  \<and> \<not> js_in ps n \<longrightarrow>
            run defaultOptions ?s [OpenTag (x_name el) (x_attrs el), CloseTag (x_name el)] =
              Inr (?s\<lparr>p_heap :=
                       (if isManyOf (case f_descriptor ?f of
                                       None \<Rightarrow> None | Some D \<Rightarrow> findElement D n)
                        then (p_heap ?s @ [HArr [JNull]])
                               [a := HObj (put ps n (JRef (length (p_heap ?s))))]
                        else (p_heap ?s)[a := HObj (put ps n JNull)])\<rparr>))
         \<and> (f_object ?f = JUndefined \<and> n \<notin> set objectPrototype \<longrightarrow>
            run defaultOptions ?s [OpenTag (x_name el) (x_attrs el), CloseTag (x_name el)] =
              Inr (?s\<lparr>p_heap :=
                       (if isManyOf (case f_descriptor ?f of
                                       None \<Rightarrow> None | Some D \<Rightarrow> findElement D n)
                        then p_heap ?s @ [HObj [(n, JRef (Suc (length (p_heap ?s))))], HArr [JNull]]
                        else p_heap ?s @ [HObj [(n, JNull)]]),
                     p_stack := ?f\<lparr>f_object := JRef (length (p_heap ?s))\<rparr> # []\<rparr>))"
    by (elim exE conjE) (rule that; assumption)
  from nm nc have n: "n = ''a''" by simp
  from dx [THEN mp, OF sc] have x: "map_of (x_attrs el) ''xmlns:xsi'' = Some xsi"
    and g: "getNamespaceURI (parserScopes ?s (x_attrs el)) ''xsi'' = Some xsi"
    by simp_all
  have q: "f_object ?f = JRef 0 \<and> 0 < length (p_heap ?s) \<and> p_heap ?s ! 0 = HObj []
                  \<and> \<not> js_in [] n"
    by (simp add: n initialState_def js_in_def hasOwn_def objectPrototype_def)
  from p [THEN mp, OF g, THEN conjunct1, THEN spec, THEN spec, THEN mp, OF q]
  have r: "run defaultOptions ?s [OpenTag (x_name el) (x_attrs el), CloseTag (x_name el)] =
        Inr (?s\<lparr>p_heap := [HObj [(''a'', JNull)]]\<rparr>)"
    by (simp add: n put_empty initialState_def)
  show ?thesis
    by (intro exI [of _ el] exI [of _ ns'] conjI) (fact j, fact c(1), fact c(2), fact x, fact t, fact r)
qed

text \<open>
  Claim C4 as stated fails for a repeatable element: \<^verbatim>\<open>{a: null}\<close> under a nillable
  descriptor of \<^verbatim>\<open>a\<close> with \<^verbatim>\<open>isMany\<close> is read back as \<^verbatim>\<open>{a: [null]}\<close>. It fails
  where the XML-Schema-Instance namespace is bound to another prefix, here as the
  namespace of the element itself under the prefix \<open>i\<close>: the element carries
  \<^verbatim>\<open>xmlns:i\<close> and \<^verbatim>\<open>xsi:nil\<close>, whose prefix nothing declares, and is read back as
  an object with the attribute \<open>nil\<close>. And it fails where an enforced restriction turns
  \<^verbatim>\<open>null\<close> into a text: the element has that text and no \<^verbatim>\<open>xsi:nil\<close>.
\<close>

theorem nillable_counterexample:
  "roundTrip 5 plainEnv (\<lambda>h v. [])
     (Some (TypeDescriptor
        [ElementDescriptor \<lparr>nsURI = [], name = ''a'', prefix = []\<rparr> None ''unqualified''
           True True True JsAbsent [] [] None] []))
     (VObj [(''a'', VNull)])
   = Inr (VObj [(''a'', VArr [VNull])])
   \<and> roundTrip 5 plainEnv (\<lambda>h v. [])
     (Some (TypeDescriptor
        [ElementDescriptor \<lparr>nsURI = xsi, name = ''a'', prefix = ''i''\<rparr> None ''qualified''
           False True True JsAbsent [] [] None] []))
     (VObj [(''a'', VNull)])
   = Inr (VObj [(''a'', VObj [(''$attributes'', VObj [(''nil'', VStr ''true'')])])])
   \<and> roundTrip 5
     (plainEnv\<lparr>e_options := defaultOptions\<lparr>enforceRestrictions := True\<rparr>,
               e_restriction := (\<lambda>d. Some (\<lambda>v. VStr ''none''))\<rparr>)
     (\<lambda>h v. [])
     (Some (TypeDescriptor
        [ElementDescriptor \<lparr>nsURI = [], name = ''a'', prefix = []\<rparr>
           (Some \<lparr>nsURI = [], name = ''t'', prefix = []\<rparr>) ''unqualified''
           False True True JsAbsent [] [] None] []))
     (VObj [(''a'', VNull)])
   = Inr (VObj [(''a'', VStr ''none'')])"
  by code_simp


section \<open>The descriptors during a call\<close>






















lemma selected_tail: "selected d0 (f # g # fs) \<Longrightarrow> selected d0 (g # fs)"
  by simp








end
